theory Spec2Isabelle
  imports Main "HOL-Library.Sublist"
begin

section \<open>Errors\<close>

text \<open>
  The exceptions the Python code can raise, as values. \<open>FutureError\<close> and \<open>PastError\<close>
  are the two \<open>RuntimeError\<close>s of \<open>__get_param\<close> ("future atoms not supported in this
  context", "past atoms not supported in this context"); \<open>NotImplemented\<close> is the
  \<open>RuntimeError("not implemented")\<close> of \<open>TermTransformer.visit_Symbol\<close>;
  \<open>SymbolError\<close> is the \<open>RuntimeError\<close> clingo raises when \<open>.number\<close> or \<open>.name\<close> is read
  from a symbol of the wrong kind; \<open>ParseError\<close> is whatever \<open>clingo.parse_program\<close>
  raises on text it rejects.
\<close>

datatype py_error =
    FutureError
  | PastError
  | NotImplemented
  | TypeError
  | ValueError
  | IndexError
  | AttributeError
  | AssertionError
  | SymbolError
  | ParseError
  | IOError

definition bnd :: "py_error + 'a \<Rightarrow> ('a \<Rightarrow> py_error + 'b) \<Rightarrow> py_error + 'b" where
  "bnd m f = (case m of Inl e \<Rightarrow> Inl e | Inr x \<Rightarrow> f x)"

section \<open>The statement tree of the grounder\<close>

text \<open>
  clingo symbols (\<open>clingo.Function(name, args)\<close>, \<open>clingo.Number(n)\<close>) and the part of
  \<open>clingo.ast\<close> the rewriter reads and writes. Locations are left out: the code only
  copies them. The payload of an \<open>ast.Symbol\<close> node is a clingo symbol where the code
  passes one, and a bare Python integer where \<open>__get_param\<close> passes \<open>shift\<close> itself.
  \<open>PyStr\<close> is a bare Python string standing where a term is expected: \<open>transform\<close>
  puts the variable names \<open>"X0", "X1", ...\<close> into argument lists as strings.
\<close>

datatype symbol =
    Sym_Number int
  | Sym_Function string "symbol list"

datatype payload =
    Clingo symbol
  | PyInt int

datatype unary_operator = UnaryMinus | UnaryNegation | UnaryAbsolute

datatype binary_operator =
    XOr | Or | And | Plus | Minus | Multiplication | Division | Modulo

datatype "term" =
    Symbol payload
  | Variable string
  | UnaryOperation unary_operator "term"
  | BinaryOperation binary_operator "term" "term"
  | Interval "term" "term"
  | Function string "term list" bool
  | Pool "term list"
  | PyStr string

definition future_prefix :: string where
  "future_prefix = ''__future_''"

definition variable_prefix :: string where
  "variable_prefix = ''X''"

definition time_parameter_name :: string where
  "time_parameter_name = ''__t''"

section \<open>Shifts\<close>

text \<open>The prime character, the temporal marker of a functor name.\<close>

definition prime :: char where
  "prime = CHR 0x27"

text \<open>\<open>name.strip("'")\<close>: every leading and every trailing prime is removed.\<close>

definition strip_primes :: "string \<Rightarrow> string" where
  "strip_primes name =
     rev (dropWhile (\<lambda>c. c = prime) (rev (dropWhile (\<lambda>c. c = prime) name)))"

text \<open>
  The loop \<open>for c in name: if c == "'": shift -= 1 else: break\<close>, started with the
  current value of \<open>shift\<close>.
\<close>

fun leading_loop :: "string \<Rightarrow> int \<Rightarrow> int" where
  "leading_loop [] shift = shift"
| "leading_loop (c # cs) shift =
     (if c = prime then leading_loop cs (shift - 1) else shift)"

text \<open>
  The shift computed at the start of \<open>__get_param\<close>:
  \<open>shift = 0\<close>, the loop, then \<open>shift += len(name) - len(n) + shift\<close>.
\<close>

definition get_shift :: "string \<Rightarrow> int" where
  "get_shift name =
     (let n = strip_primes name;
          shift = leading_loop name 0
      in shift + (int (length name) - int (length n) + shift))"

section \<open>Dictionaries\<close>

text \<open>
  A Python dictionary as an association list in insertion order, each key once.
  \<open>dict_set\<close> is \<open>d[k] = v\<close> (an existing key keeps its place), \<open>dict_setdefault\<close> is
  \<open>d.setdefault(k, v)\<close> for its effect on \<open>d\<close>, and \<open>dict_append\<close> is
  \<open>d.setdefault(k, []).append(x)\<close>.
\<close>

fun dict_set :: "'k \<Rightarrow> 'v \<Rightarrow> ('k \<times> 'v) list \<Rightarrow> ('k \<times> 'v) list" where
  "dict_set k v [] = [(k, v)]"
| "dict_set k v ((k', v') # d) =
     (if k' = k then (k', v) # d else (k', v') # dict_set k v d)"

definition dict_setdefault :: "'k \<Rightarrow> 'v \<Rightarrow> ('k \<times> 'v) list \<Rightarrow> ('k \<times> 'v) list" where
  "dict_setdefault k v d = (case map_of d k of None \<Rightarrow> d @ [(k, v)] | Some w \<Rightarrow> d)"

fun dict_append :: "'k \<Rightarrow> 'v \<Rightarrow> ('k \<times> 'v list) list \<Rightarrow> ('k \<times> 'v list) list" where
  "dict_append k x [] = [(k, [x])]"
| "dict_append k x ((k', xs) # d) =
     (if k' = k then (k', xs @ [x]) # d else (k', xs) # dict_append k x d)"

section \<open>Literals, rules and statements\<close>

text \<open>
  The node kinds modelled: symbolic atoms, Boolean constants and comparisons; literals and
  conditional literals; rules whose head is a literal or a disjunction and whose body
  holds literals and conditional literals; \<open>#program\<close>, \<open>#show p/n\<close>, \<open>#project p/n\<close>,
  \<open>#external\<close> and \<open>#const\<close> statements. \<open>Head_Literal\<close> and \<open>Body_Literal\<close> are the same
  \<open>Literal\<close> node of \<open>clingo.ast\<close>, told apart by where it stands. The parameters of a
  \<open>Program\<close> are \<open>Id\<close> nodes, kept as their names.
\<close>

datatype comparison_operator =
  GreaterThan | LessThan | LessEqual | GreaterEqual | NotEqual | Equal

datatype atom =
    SymbolicAtom "term"
  | BooleanConstant bool
  | Comparison comparison_operator "term" "term"

datatype sign = NoSign | Negation | DoubleNegation

datatype literal = Literal sign atom

datatype conditional_literal = ConditionalLiteral literal "literal list"

datatype head =
    Head_Literal literal
  | Disjunction "conditional_literal list"

datatype body_literal =
    Body_Literal literal
  | Body_Conditional conditional_literal

datatype statement =
    Rule head "body_literal list"
  | Program string "string list"
  | ShowSignature string nat bool bool
  | ProjectSignature string nat bool
  | External atom "body_literal list"
  | Definition string "term" bool

section \<open>The state of the transformers\<close>

text \<open>
  The registry of future predicates maps \<open>(name, arity, shift)\<close> to the disjunctive flag.
  One record holds the fields of \<open>ProgramTransformer\<close> together with the registry its
  \<open>TermTransformer\<close> shares with \<open>transform\<close>; \<open>max_shift\<close> is the one-element list
  \<open>__max_shift\<close>, and \<open>part\<close> is \<open>None\<close> until \<open>visit_Program\<close> has set \<open>__part\<close>.
\<close>

type_synonym key = "string \<times> nat \<times> int"

type_synonym registry = "(key \<times> bool) list"

record state =
  final :: bool
  head :: bool
  constraint :: bool
  disjunction :: bool
  max_shift :: int
  parameter :: symbol
  part :: "string option"
  future_predicates :: registry
  constraint_parts :: "((string \<times> string \<times> int) \<times> (statement \<times> statement) list) list"

text \<open>\<open>symbol.name\<close>: clingo raises for a symbol that is not a function.\<close>

fun symbol_name :: "symbol \<Rightarrow> py_error + string" where
  "symbol_name (Sym_Function n args) = Inr n"
| "symbol_name (Sym_Number i) = Inl SymbolError"

section \<open>TermTransformer\<close>

text \<open>
  \<open>__get_param\<close>. The result is the new name, the arguments to append, and the state
  after the registry or \<open>max_shift\<close> has been written. The list \<open>params\<close> starts as the
  time parameter alone; the shift is inserted at its front, and its last element is
  replaced by \<open>parameter + shift\<close>.
\<close>

definition get_param ::
  "state \<Rightarrow> string \<Rightarrow> nat \<Rightarrow> bool \<Rightarrow> bool \<Rightarrow> bool \<Rightarrow> bool
     \<Rightarrow> py_error + (string \<times> term list \<times> state)" where
  "get_param st name arity replace_future fail_future fail_past disjunctive =
     (let n = strip_primes name;
          shift = get_shift name;
          params = [Symbol (Clingo (parameter st))]
      in if shift \<noteq> 0 then
           if fail_future \<and> shift > 0 then Inl FutureError
           else if fail_past \<and> shift < 0 then Inl PastError
           else
             (let (n1, params1, st1) =
                (if shift > 0 then
                   (if replace_future then
                      (future_prefix @ n,
                       Symbol (PyInt shift) # params,
                       st\<lparr>future_predicates :=
                            (if disjunctive
                             then dict_set (n, arity, shift) True (future_predicates st)
                             else dict_setdefault (n, arity, shift) False
                                    (future_predicates st))\<rparr>)
                    else (n, params, st\<lparr>max_shift := max (max_shift st) shift\<rparr>))
                 else (n, params, st))
              in Inr (n1,
                      butlast params1 @
                        [BinaryOperation Plus (last params1) (Symbol (PyInt shift))],
                      st1))
         else Inr (n, params, st))"

text \<open>
  \<open>TermTransformer.visit\<close> with the four policy flags: \<open>visit_Function\<close> extends the
  arguments of a function term (its own arguments are not visited), \<open>visit_Symbol\<close>
  raises, every other node has its children visited, and a value that is no node raises
  \<open>TypeError\<close>.
\<close>

fun tt_visit ::
  "bool \<Rightarrow> bool \<Rightarrow> bool \<Rightarrow> bool \<Rightarrow> state \<Rightarrow> term \<Rightarrow> py_error + (term \<times> state)"
and tt_visit_list ::
  "bool \<Rightarrow> bool \<Rightarrow> bool \<Rightarrow> bool \<Rightarrow> state \<Rightarrow> term list \<Rightarrow> py_error + (term list \<times> state)"
where
  "tt_visit rf ff fp dj st (Function name args ext) =
     bnd (get_param st name (length args) rf ff fp dj)
       (\<lambda>(n, params, st'). Inr (Function n (args @ params) ext, st'))"
| "tt_visit rf ff fp dj st (Symbol p) = Inl NotImplemented"
| "tt_visit rf ff fp dj st (Variable v) = Inr (Variable v, st)"
| "tt_visit rf ff fp dj st (UnaryOperation op a) =
     bnd (tt_visit rf ff fp dj st a) (\<lambda>(a', st'). Inr (UnaryOperation op a', st'))"
| "tt_visit rf ff fp dj st (BinaryOperation op l r) =
     bnd (tt_visit rf ff fp dj st l) (\<lambda>(l', st1).
     bnd (tt_visit rf ff fp dj st1 r) (\<lambda>(r', st2).
       Inr (BinaryOperation op l' r', st2)))"
| "tt_visit rf ff fp dj st (Interval l r) =
     bnd (tt_visit rf ff fp dj st l) (\<lambda>(l', st1).
     bnd (tt_visit rf ff fp dj st1 r) (\<lambda>(r', st2).
       Inr (Interval l' r', st2)))"
| "tt_visit rf ff fp dj st (Pool args) =
     bnd (tt_visit_list rf ff fp dj st args) (\<lambda>(args', st'). Inr (Pool args', st'))"
| "tt_visit rf ff fp dj st (PyStr s) = Inl TypeError"
| "tt_visit_list rf ff fp dj st [] = Inr ([], st)"
| "tt_visit_list rf ff fp dj st (x # xs) =
     bnd (tt_visit rf ff fp dj st x) (\<lambda>(x', st1).
     bnd (tt_visit_list rf ff fp dj st1 xs) (\<lambda>(xs', st2).
       Inr (x' # xs', st2)))"

section \<open>ProgramTransformer\<close>

text \<open>
  The generic \<open>Transformer.visit\<close> on a term outside a symbolic atom:
  \<open>ProgramTransformer\<close> has no method for any term node, so the children are visited and
  the term comes back as it was, unless a value that is no node is met.
\<close>

fun generic_term :: "term \<Rightarrow> py_error + term"
and generic_terms :: "term list \<Rightarrow> py_error + term list" where
  "generic_term (Symbol p) = Inr (Symbol p)"
| "generic_term (Variable v) = Inr (Variable v)"
| "generic_term (UnaryOperation op a) =
     bnd (generic_term a) (\<lambda>a'. Inr (UnaryOperation op a'))"
| "generic_term (BinaryOperation op l r) =
     bnd (generic_term l) (\<lambda>l'. bnd (generic_term r) (\<lambda>r'. Inr (BinaryOperation op l' r')))"
| "generic_term (Interval l r) =
     bnd (generic_term l) (\<lambda>l'. bnd (generic_term r) (\<lambda>r'. Inr (Interval l' r')))"
| "generic_term (Function name args ext) =
     bnd (generic_terms args) (\<lambda>args'. Inr (Function name args' ext))"
| "generic_term (Pool args) = bnd (generic_terms args) (\<lambda>args'. Inr (Pool args'))"
| "generic_term (PyStr s) = Inl TypeError"
| "generic_terms [] = Inr []"
| "generic_terms (x # xs) =
     bnd (generic_term x) (\<lambda>x'. bnd (generic_terms xs) (\<lambda>xs'. Inr (x' # xs')))"

text \<open>\<open>is_constraint\<close> and \<open>is_disjunction\<close>, on the head of a rule.\<close>

fun is_constraint :: "head \<Rightarrow> bool" where
  "is_constraint (Head_Literal (Literal sg a)) =
     ((case a of BooleanConstant v \<Rightarrow> \<not> v | _ \<Rightarrow> False) \<or> sg \<noteq> NoSign)"
| "is_constraint (Disjunction es) = False"

fun is_disjunction :: "head \<Rightarrow> bool" where
  "is_disjunction (Disjunction es) = True"
| "is_disjunction (Head_Literal l) = False"

text \<open>
  \<open>visit_SymbolicAtom\<close>: the term transformer is called with
  \<open>replace_future = head\<close>, \<open>fail_future = not head and not constraint\<close>,
  \<open>fail_past = head\<close>, \<open>disjunctive = head and disjunction\<close>.
\<close>

definition visit_SymbolicAtom :: "state \<Rightarrow> term \<Rightarrow> py_error + (atom \<times> state)" where
  "visit_SymbolicAtom st t =
     bnd (tt_visit (head st) (\<not> head st \<and> \<not> constraint st) (head st)
            (head st \<and> disjunction st) st t)
       (\<lambda>(t', st'). Inr (SymbolicAtom t', st'))"

fun visit_atom :: "state \<Rightarrow> atom \<Rightarrow> py_error + (atom \<times> state)" where
  "visit_atom st (SymbolicAtom t) = visit_SymbolicAtom st t"
| "visit_atom st (BooleanConstant v) = Inr (BooleanConstant v, st)"
| "visit_atom st (Comparison op l r) =
     bnd (generic_term l) (\<lambda>l'. bnd (generic_term r) (\<lambda>r'. Inr (Comparison op l' r', st)))"

text \<open>\<open>visit_Literal\<close>: a signed literal is not a head position; the flag is restored.\<close>

fun visit_Literal :: "state \<Rightarrow> literal \<Rightarrow> py_error + (literal \<times> state)" where
  "visit_Literal st (Literal sg a) =
     (let h = head st
      in bnd (visit_atom (st\<lparr>head := (head st \<and> sg = NoSign)\<rparr>) a)
           (\<lambda>(a', st'). Inr (Literal sg a', st'\<lparr>head := h\<rparr>)))"

fun visit_literals :: "state \<Rightarrow> literal list \<Rightarrow> py_error + (literal list \<times> state)" where
  "visit_literals st [] = Inr ([], st)"
| "visit_literals st (l # ls) =
     bnd (visit_Literal st l) (\<lambda>(l', st1).
     bnd (visit_literals st1 ls) (\<lambda>(ls', st2). Inr (l' # ls', st2)))"

text \<open>
  \<open>visit_ConditionalLiteral\<close>: the literal in the current position, the condition as a
  non-head position. The nodes are rewritten in place, so the results the code drops are
  the nodes it returns.
\<close>

fun visit_ConditionalLiteral ::
  "state \<Rightarrow> conditional_literal \<Rightarrow> py_error + (conditional_literal \<times> state)" where
  "visit_ConditionalLiteral st (ConditionalLiteral l cond) =
     bnd (visit_Literal st l) (\<lambda>(l', st1).
       (let h = head st1
        in bnd (visit_literals (st1\<lparr>head := False\<rparr>) cond)
             (\<lambda>(cond', st2). Inr (ConditionalLiteral l' cond', st2\<lparr>head := h\<rparr>))))"

fun visit_conditionals ::
  "state \<Rightarrow> conditional_literal list \<Rightarrow> py_error + (conditional_literal list \<times> state)" where
  "visit_conditionals st [] = Inr ([], st)"
| "visit_conditionals st (c # cs) =
     bnd (visit_ConditionalLiteral st c) (\<lambda>(c', st1).
     bnd (visit_conditionals st1 cs) (\<lambda>(cs', st2). Inr (c' # cs', st2)))"

fun visit_head :: "state \<Rightarrow> head \<Rightarrow> py_error + (head \<times> state)" where
  "visit_head st (Head_Literal l) =
     bnd (visit_Literal st l) (\<lambda>(l', st'). Inr (Head_Literal l', st'))"
| "visit_head st (Disjunction es) =
     bnd (visit_conditionals st es) (\<lambda>(es', st'). Inr (Disjunction es', st'))"

fun visit_body_literal :: "state \<Rightarrow> body_literal \<Rightarrow> py_error + (body_literal \<times> state)" where
  "visit_body_literal st (Body_Literal l) =
     bnd (visit_Literal st l) (\<lambda>(l', st'). Inr (Body_Literal l', st'))"
| "visit_body_literal st (Body_Conditional c) =
     bnd (visit_ConditionalLiteral st c) (\<lambda>(c', st'). Inr (Body_Conditional c', st'))"

fun visit_body :: "state \<Rightarrow> body_literal list \<Rightarrow> py_error + (body_literal list \<times> state)" where
  "visit_body st [] = Inr ([], st)"
| "visit_body st (b # bs) =
     bnd (visit_body_literal st b) (\<lambda>(b', st1).
     bnd (visit_body st1 bs) (\<lambda>(bs', st2). Inr (b' # bs', st2)))"

text \<open>The literal \<open>__append_final\<close> appends to a body.\<close>

definition final_literal :: "state \<Rightarrow> bool \<Rightarrow> body_literal" where
  "final_literal st add_param =
     Body_Literal (Literal NoSign (SymbolicAtom
       (Function ''__final'' (if add_param then [Symbol (Clingo (parameter st))] else [])
          False)))"

text \<open>
  \<open>visit_Rule\<close>. The flags are set, the head and then the body are visited; a rule that
  looked into the future outside the final part is recorded in \<open>constraint_parts\<close>
  together with a copy made before the final literal is appended. The \<open>finally\<close> block
  resets the flags; after an exception the state is not used again.
\<close>

definition visit_Rule ::
  "state \<Rightarrow> head \<Rightarrow> body_literal list \<Rightarrow> py_error + (statement \<times> state)" where
  "visit_Rule st h b =
     (let st1 = st\<lparr>head := True, max_shift := 0,
                    constraint := is_constraint h, disjunction := is_disjunction h\<rparr>
      in bnd (visit_head st1 h) (\<lambda>(h', st2).
         bnd (visit_body (st2\<lparr>head := False\<rparr>) b) (\<lambda>(b', st3).
         bnd (if max_shift st3 > 0 \<and> \<not> final st3 then
                (case part st3 of
                   None \<Rightarrow> Inl AttributeError
                 | Some p \<Rightarrow>
                     bnd (symbol_name (parameter st3)) (\<lambda>pn.
                       (let last = Rule h' b';
                            rule = Rule h' (b' @ [final_literal st3 True])
                        in Inr (rule,
                                st3\<lparr>constraint_parts :=
                                      dict_append (p, pn, max_shift st3) (rule, last)
                                        (constraint_parts st3)\<rparr>))))
              else Inr (Rule h' b', st3))
           (\<lambda>(r, st4). Inr (r, st4\<lparr>head := False, max_shift := 0,
                                   constraint := False, disjunction := False\<rparr>)))))"

text \<open>\<open>visit_Program\<close>: \<open>final\<close> and \<open>base\<close> become \<open>static\<close>; the time parameter is added.\<close>

definition visit_Program ::
  "state \<Rightarrow> string \<Rightarrow> string list \<Rightarrow> py_error + (statement \<times> state)" where
  "visit_Program st name params =
     (let fin = (name = ''final'');
          name1 = (if fin then ''static'' else name);
          name2 = (if name1 = ''base'' then ''static'' else name1)
      in bnd (symbol_name (parameter st)) (\<lambda>pn.
           Inr (Program name2 (params @ [pn]), st\<lparr>final := fin, part := Some name2\<rparr>)))"

text \<open>
  \<open>ProgramTransformer.visit\<close> on a statement: in a final part a node with a body first
  gets the \<open>__final\<close> atom appended, then the node is dispatched on its kind.
\<close>

fun append_final_if :: "state \<Rightarrow> statement \<Rightarrow> statement" where
  "append_final_if st (Rule h b) =
     (if final st then Rule h (b @ [final_literal st False]) else Rule h b)"
| "append_final_if st (External a b) =
     (if final st then External a (b @ [final_literal st False]) else External a b)"
| "append_final_if st s = s"

fun dispatch :: "state \<Rightarrow> statement \<Rightarrow> py_error + (statement \<times> state)" where
  "dispatch st (Rule h b) = visit_Rule st h b"
| "dispatch st (Program name params) = visit_Program st name params"
| "dispatch st (ShowSignature name arity positive csp) =
     Inr (ShowSignature name (arity + 1) positive csp, st)"
| "dispatch st (ProjectSignature name arity positive) =
     Inr (ProjectSignature name (arity + 1) positive, st)"
| "dispatch st (External a b) =
     bnd (visit_atom st a) (\<lambda>(a', st1).
     bnd (visit_body st1 b) (\<lambda>(b', st2). Inr (External a' b', st2)))"
| "dispatch st (Definition name v d) =
     bnd (generic_term v) (\<lambda>v'. Inr (Definition name v' d, st))"

definition visit :: "state \<Rightarrow> statement \<Rightarrow> py_error + (statement \<times> state)" where
  "visit st s = dispatch st (append_final_if st s)"

section \<open>transform\<close>

text \<open>
  The parser is the grounder's: \<open>parse\<close> gives the statements \<open>clingo.parse_program\<close>
  hands to its callback for one text, or the error it raises. The callback appends the
  visited statement to \<open>ret\<close>.
\<close>

fun visit_all ::
  "state \<Rightarrow> statement list \<Rightarrow> statement list \<Rightarrow> py_error + (statement list \<times> state)" where
  "visit_all st [] ret = Inr (ret, st)"
| "visit_all st (s # ss) ret =
     bnd (visit st s) (\<lambda>(s', st'). visit_all st' ss (ret @ [s']))"

fun rewrite_inputs ::
  "(string \<Rightarrow> py_error + statement list) \<Rightarrow> state \<Rightarrow> string list \<Rightarrow> statement list
     \<Rightarrow> py_error + (statement list \<times> state)" where
  "rewrite_inputs parse st [] ret = Inr (ret, st)"
| "rewrite_inputs parse st (i # inputs) ret =
     bnd (parse i) (\<lambda>ss.
     bnd (visit_all st ss ret) (\<lambda>(ret', st'). rewrite_inputs parse st' inputs ret'))"

text \<open>\<open>ProgramTransformer(clingo.Function("__t"), {}, {})\<close>.\<close>

definition initial_state :: state where
  "initial_state =
     \<lparr>final = False, head = False, constraint = False, disjunction = False,
      max_shift = 0, parameter = Sym_Function time_parameter_name [],
      part = None, future_predicates = [], constraint_parts = []\<rparr>"

text \<open>The decimal digits of a number, for \<open>"{}{}".format("X", i)\<close>.\<close>

fun digits :: "nat \<Rightarrow> string" where
  "digits n =
     (if n < 10 then [char_of (48 + n)]
      else digits (n div 10) @ [char_of (48 + n mod 10)])"

declare digits.simps [simp del]

text \<open>
  The statements one pass of the loop over \<open>future_predicates.items()\<close> appends to \<open>ret\<close>
  for the key \<open>(name, arity, shift)\<close> and its flag.
\<close>

definition future_rules :: "key \<Rightarrow> bool \<Rightarrow> statement list" where
  "future_rules k disjunctive =
     (case k of (name, arity, shift) \<Rightarrow>
       (let variables = map (\<lambda>i. PyStr (variable_prefix @ digits i)) [0..<arity];
            t = Symbol (Clingo (Sym_Function time_parameter_name []));
            s = Symbol (Clingo (Sym_Number shift));
            l = (\<lambda>x. Literal NoSign x);
            t_shifted = BinaryOperation Plus t s;
            p_current = SymbolicAtom (Function name (variables @ [t]) False);
            f_current = SymbolicAtom (Function (future_prefix @ name) (variables @ [s, t]) False)
        in (if disjunctive then
              (let p_future = SymbolicAtom (Function name (variables @ [t_shifted]) False);
                   f_future = SymbolicAtom
                     (Function (future_prefix @ name) (variables @ [s, t_shifted]) False)
               in [External p_future [Body_Literal (l f_future)],
                   Rule (Head_Literal (l f_future)) [Body_Literal (l p_future)]])
            else [])
           @ [Rule (Head_Literal (l p_current)) [Body_Literal (l f_current)]]))"

fun future_loop ::
  "registry \<Rightarrow> statement list \<Rightarrow> (string \<times> nat) list
     \<Rightarrow> statement list \<times> (string \<times> nat) list" where
  "future_loop [] ret future_sigs = (ret, future_sigs)"
| "future_loop ((k, disjunctive) # fp) ret future_sigs =
     (case k of (name, arity, shift) \<Rightarrow>
        future_loop fp (ret @ future_rules k disjunctive)
          (future_sigs @ [(future_prefix @ name, arity + 2)]))"

text \<open>
  \<open>transform\<close>. The list \<open>reground_parts\<close> is created empty and tested at once, so the
  assertion under the test is never reached.
\<close>

definition transform ::
  "(string \<Rightarrow> py_error + statement list) \<Rightarrow> string list
     \<Rightarrow> py_error + (statement list \<times> (string \<times> nat) list \<times> statement list)" where
  "transform parse inputs =
     bnd (rewrite_inputs parse initial_state inputs []) (\<lambda>(ret, st).
       (let (ret1, future_sigs) =
              (if length (future_predicates st) > 0 then
                 future_loop (future_predicates st)
                   (ret @ [Program ''static'' [time_parameter_name]]) []
               else (ret, []));
            reground_parts = []
        in if length reground_parts > 0 then Inl AssertionError
           else Inr (ret1, future_sigs, reground_parts)))"

section \<open>The incremental loop\<close>

text \<open>
  The grounder and solver behind \<open>prg\<close> is not part of the program. What \<open>imain\<close> reads
  from it is given by two functions of the step at which the call is made: the symbolic
  atoms present after the grounding of that step, and the answer of \<open>solve\<close> under the
  given assumptions. What \<open>imain\<close> does to it is recorded as a list of calls, each with
  the value of \<open>step\<close> at the call.
\<close>

record solve_result =
  satisfiable :: bool
  unsatisfiable :: bool
  unknown :: bool

record ground_atom =
  symbol :: symbol
  literal :: int

record control =
  symbolic_atoms :: "int \<Rightarrow> ground_atom list"
  solve_answer :: "int \<Rightarrow> int list \<Rightarrow> solve_result"

datatype call =
    Release_external symbol
  | Cleanup
  | Ground "(string \<times> int list) list"
  | Assign_external symbol bool
  | Solve "int list"

record loop_state =
  step :: int
  ret :: "solve_result option"
  calls :: "(int \<times> call) list"
  raised :: "py_error option"

text \<open>\<open>clingo.Function("__final", [k])\<close>.\<close>

definition final_marker :: "int \<Rightarrow> symbol" where
  "final_marker k = Sym_Function ''__final'' [Sym_Number k]"

text \<open>
  The two nested loops that collect \<open>parts\<close>, each written with the list it appends to.
\<close>

fun rng_loop ::
  "int \<Rightarrow> string \<Rightarrow> string \<Rightarrow> int list \<Rightarrow> (string \<times> int list) list
     \<Rightarrow> (string \<times> int list) list" where
  "rng_loop k root_name part_name [] parts = parts"
| "rng_loop k root_name part_name (i # rng) parts =
     rng_loop k root_name part_name rng
       (if (k - i \<ge> 0 \<and> root_name = ''static'') \<or>
           (k - i > 0 \<and> root_name = ''dynamic'') \<or>
           (k - i = 0 \<and> root_name = ''initial'')
        then parts @ [(part_name, [k - i, k])]
        else parts)"

fun parts_loop ::
  "int \<Rightarrow> (string \<times> string \<times> int list) list \<Rightarrow> (string \<times> int list) list
     \<Rightarrow> (string \<times> int list) list" where
  "parts_loop k [] parts = parts"
| "parts_loop k (d # program_parts) parts =
     (case d of (root_name, part_name, rng) \<Rightarrow>
        parts_loop k program_parts (rng_loop k root_name part_name rng parts))"

text \<open>
  \<open>prg.symbolic_atoms.by_signature(name, arity)\<close>: the atoms over the predicate, in the
  order the grounder holds them.
\<close>

fun has_signature :: "string \<Rightarrow> nat \<Rightarrow> symbol \<Rightarrow> bool" where
  "has_signature name arity (Sym_Function n args) = (n = name \<and> length args = arity)"
| "has_signature name arity (Sym_Number i) = False"

definition by_signature :: "ground_atom list \<Rightarrow> string \<Rightarrow> nat \<Rightarrow> ground_atom list" where
  "by_signature atoms name arity = filter (\<lambda>a. has_signature name arity (symbol a)) atoms"

text \<open>
  \<open>atom.symbol.arguments[-1].number\<close>: an empty argument list raises \<open>IndexError\<close>, and
  clingo raises when the last argument is not a number.
\<close>

fun symbol_arguments :: "symbol \<Rightarrow> py_error + symbol list" where
  "symbol_arguments (Sym_Function n args) = Inr args"
| "symbol_arguments (Sym_Number i) = Inl SymbolError"

fun symbol_number :: "symbol \<Rightarrow> py_error + int" where
  "symbol_number (Sym_Number i) = Inr i"
| "symbol_number (Sym_Function n args) = Inl SymbolError"

definition last_number :: "ground_atom \<Rightarrow> py_error + int" where
  "last_number a =
     bnd (symbol_arguments (symbol a)) (\<lambda>args.
       if args = [] then Inl IndexError else symbol_number (last args))"

text \<open>The two nested loops that collect \<open>assumptions\<close>.\<close>

fun atoms_loop :: "int \<Rightarrow> ground_atom list \<Rightarrow> int list \<Rightarrow> py_error + int list" where
  "atoms_loop k [] assumptions = Inr assumptions"
| "atoms_loop k (a # atoms) assumptions =
     bnd (last_number a) (\<lambda>n.
       atoms_loop k atoms (if n > k then assumptions @ [- literal a] else assumptions))"

fun sigs_loop ::
  "int \<Rightarrow> ground_atom list \<Rightarrow> (string \<times> nat) list \<Rightarrow> int list \<Rightarrow> py_error + int list" where
  "sigs_loop k atoms [] assumptions = Inr assumptions"
| "sigs_loop k atoms (sg # future_sigs) assumptions =
     (case sg of (name, arity) \<Rightarrow>
        bnd (atoms_loop k (by_signature atoms name arity) assumptions) (\<lambda>assumptions'.
          sigs_loop k atoms future_sigs assumptions'))"

text \<open>
  The loop condition. \<open>imax\<close> is \<open>None\<close> or a number; reading a field of \<open>ret\<close> while it
  is still \<open>None\<close> raises \<open>AttributeError\<close>.
\<close>

definition loop_cond :: "int \<Rightarrow> int option \<Rightarrow> string \<Rightarrow> loop_state \<Rightarrow> py_error + bool" where
  "loop_cond imin imax istop st =
     (if (case imax of None \<Rightarrow> True | Some m \<Rightarrow> step st < m) then
        (if step st = 0 \<or> step st < imin then Inr True
         else
           (case ret st of
              None \<Rightarrow>
                (if istop = ''SAT'' \<or> istop = ''UNSAT'' \<or> istop = ''UNKNOWN''
                 then Inl AttributeError else Inr False)
            | Some r \<Rightarrow>
                Inr ((istop = ''SAT'' \<and> \<not> satisfiable r) \<or>
                     (istop = ''UNSAT'' \<and> \<not> unsatisfiable r) \<or>
                     (istop = ''UNKNOWN'' \<and> \<not> unknown r))))
      else Inr False)"

text \<open>
  One pass through the body of the loop. An exception while the assumptions are built
  leaves the calls made so far and ends the run.
\<close>

definition body ::
  "control \<Rightarrow> (string \<times> nat) list \<Rightarrow> (string \<times> string \<times> int list) list
     \<Rightarrow> loop_state \<Rightarrow> loop_state" where
  "body prg future_sigs program_parts st =
     (let k = step st;
          parts = parts_loop k program_parts [];
          c1 = (if k > 0
                then calls st @ [(k, Release_external (final_marker (k - 1))), (k, Cleanup)]
                else calls st);
          c2 = c1 @ [(k, Ground parts)];
          c3 = c2 @ [(k, Assign_external (final_marker k) True)]
      in (case sigs_loop k (symbolic_atoms prg k) future_sigs [] of
            Inl e \<Rightarrow> st\<lparr>calls := c3, raised := Some e\<rparr>
          | Inr assumptions \<Rightarrow>
              st\<lparr>step := k + 1,
                 ret := Some (solve_answer prg k assumptions),
                 calls := c3 @ [(k, Solve assumptions)]\<rparr>))"

text \<open>
  The \<open>while\<close> loop, unrolled at most \<open>n\<close> times: the state after \<open>n\<close> passes, or the state
  in which the loop stopped or raised if that comes first.
\<close>

fun imain_loop ::
  "nat \<Rightarrow> control \<Rightarrow> (string \<times> nat) list \<Rightarrow> (string \<times> string \<times> int list) list
     \<Rightarrow> int \<Rightarrow> int option \<Rightarrow> string \<Rightarrow> loop_state \<Rightarrow> loop_state" where
  "imain_loop 0 prg future_sigs program_parts imin imax istop st = st"
| "imain_loop (Suc n) prg future_sigs program_parts imin imax istop st =
     (if raised st \<noteq> None then st
      else
        (case loop_cond imin imax istop st of
           Inl e \<Rightarrow> st\<lparr>raised := Some e\<rparr>
         | Inr c \<Rightarrow>
             if c then imain_loop n prg future_sigs program_parts imin imax istop
                         (body prg future_sigs program_parts st)
             else st))"

definition imain ::
  "nat \<Rightarrow> control \<Rightarrow> (string \<times> nat) list \<Rightarrow> (string \<times> string \<times> int list) list
     \<Rightarrow> int \<Rightarrow> int option \<Rightarrow> string \<Rightarrow> loop_state" where
  "imain n prg future_sigs program_parts imin imax istop =
     imain_loop n prg future_sigs program_parts imin imax istop
       \<lparr>step = 0, ret = None, calls = [], raised = None\<rparr>"

text \<open>
  The finality markers that are assigned true and not released, after a list of calls.
\<close>

fun apply_call :: "symbol set \<Rightarrow> int \<times> call \<Rightarrow> symbol set" where
  "apply_call S (k, Assign_external m v) = (if v then insert m S else S - {m})"
| "apply_call S (k, Release_external m) = S - {m}"
| "apply_call S (k, Cleanup) = S"
| "apply_call S (k, Ground parts) = S"
| "apply_call S (k, Solve assumptions) = S"

definition asserted :: "(int \<times> call) list \<Rightarrow> symbol set" where
  "asserted cs = foldl apply_call {} cs"

section \<open>Application.main\<close>

text \<open>
  The values \<open>main\<close> passes around, as far as their kind matters. A call of \<open>transform\<close>
  binds its positional arguments to the one parameter \<open>inputs\<close>: any other number of
  arguments raises \<open>TypeError\<close> before the body runs. \<open>a, b = v\<close> raises \<open>ValueError\<close>
  unless \<open>v\<close> has exactly two elements. The program builder is the grounder's; of its
  \<open>add\<close> method only the fact that it is passed as a second argument matters.
\<close>

datatype pyval =
    Py_Strs "string list"
  | Py_Method string
  | Py_Stmts "statement list"
  | Py_Sigs "(string \<times> nat) list"
  | Py_Parts "(string \<times> string \<times> int list) list"
  | Py_Tuple "pyval list"

definition call_transform ::
  "(string \<Rightarrow> py_error + statement list) \<Rightarrow> pyval list \<Rightarrow> py_error + pyval" where
  "call_transform parse args =
     (case args of
        [inputs] \<Rightarrow>
          (case inputs of
             Py_Strs texts \<Rightarrow>
               bnd (transform parse texts) (\<lambda>(ret, future_sigs, reground_parts).
                 Inr (Py_Tuple [Py_Stmts ret, Py_Sigs future_sigs, Py_Stmts reground_parts]))
           | _ \<Rightarrow> Inl TypeError)
      | _ \<Rightarrow> Inl TypeError)"

definition unpack2 :: "pyval \<Rightarrow> py_error + (pyval \<times> pyval)" where
  "unpack2 v = (case v of Py_Tuple [a, b] \<Rightarrow> Inr (a, b) | Py_Tuple vs \<Rightarrow> Inl ValueError
                | _ \<Rightarrow> Inl TypeError)"

text \<open>\<open>[open(f) for f in files]\<close> and \<open>f.read()\<close>: the text of each file, or the error.\<close>

fun read_all :: "(string \<Rightarrow> py_error + string) \<Rightarrow> string list \<Rightarrow> py_error + string list" where
  "read_all read_file [] = Inr []"
| "read_all read_file (f # fs) =
     bnd (read_file f) (\<lambda>t. bnd (read_all read_file fs) (\<lambda>ts. Inr (t # ts)))"

text \<open>
  \<open>Application.main\<close>. The result is the state \<open>imain\<close> ends in; an exception raised
  before \<open>imain\<close> is entered gives the state with no call made.
\<close>

definition main ::
  "nat \<Rightarrow> control \<Rightarrow> (string \<Rightarrow> py_error + statement list) \<Rightarrow> (string \<Rightarrow> py_error + string)
     \<Rightarrow> string \<Rightarrow> int \<Rightarrow> int option \<Rightarrow> string \<Rightarrow> string list \<Rightarrow> loop_state" where
  "main n prg parse read_file stdin imin imax istop files =
     (case
        bnd (read_all read_file files) (\<lambda>texts0.
          (let texts = (if length files = 0 then [stdin] else texts0)
           in bnd (call_transform parse [Py_Strs texts, Py_Method ''add'']) (\<lambda>r.
              bnd (unpack2 r) (\<lambda>(a, b).
                (case (a, b) of
                   (Py_Sigs future_sigs, Py_Parts program_parts) \<Rightarrow>
                     Inr (imain n prg future_sigs program_parts imin imax istop)
                 | _ \<Rightarrow> Inl TypeError)))))
      of Inl e \<Rightarrow> \<lparr>step = 0, ret = None, calls = [], raised = Some e\<rparr>
       | Inr st \<Rightarrow> st)"

section \<open>Example inputs\<close>

text \<open>
  A parser that hands out the same statements for every text, some small programs as the
  grounder's parser delivers them (each starts with \<open>#program base.\<close>), and two grounders.
\<close>

definition parse_const :: "statement list \<Rightarrow> string \<Rightarrow> py_error + statement list" where
  "parse_const ss text = Inr ss"

definition plain_atom :: "string \<Rightarrow> literal" where
  "plain_atom name = Literal NoSign (SymbolicAtom (Function name [] False))"

text \<open>\<open>a :- 'b.\<close>\<close>

definition plain_program :: "statement list" where
  "plain_program =
     [Program ''base'' [],
      Rule (Head_Literal (plain_atom ''a'')) [Body_Literal (plain_atom (prime # ''b''))]]"

text \<open>\<open>a :- b'.\<close>\<close>

definition body_future_program :: "statement list" where
  "body_future_program =
     [Program ''base'' [],
      Rule (Head_Literal (plain_atom ''a'')) [Body_Literal (plain_atom (''b'' @ [prime]))]]"

text \<open>\<open>:- b'.\<close>\<close>

definition constraint_future_program :: "statement list" where
  "constraint_future_program =
     [Program ''base'' [],
      Rule (Head_Literal (Literal NoSign (BooleanConstant False)))
        [Body_Literal (plain_atom (''b'' @ [prime]))]]"

text \<open>\<open>'a :- b.\<close>\<close>

definition head_past_program :: "statement list" where
  "head_past_program =
     [Program ''base'' [],
      Rule (Head_Literal (plain_atom (prime # ''a''))) [Body_Literal (plain_atom ''b'')]]"

text \<open>\<open>a'' :- b.\<close>\<close>

definition head_future_program :: "statement list" where
  "head_future_program =
     [Program ''base'' [],
      Rule (Head_Literal (plain_atom (''a'' @ [prime, prime]))) [Body_Literal (plain_atom ''b'')]]"

text \<open>\<open>a'(X) ; b :- c(X).\<close>\<close>

definition disjunctive_program :: "statement list" where
  "disjunctive_program =
     [Program ''base'' [],
      Rule (Disjunction
              [ConditionalLiteral
                 (Literal NoSign (SymbolicAtom (Function (''a'' @ [prime]) [Variable ''X''] False)))
                 [],
               ConditionalLiteral (plain_atom ''b'') []])
        [Body_Literal (Literal NoSign (SymbolicAtom (Function ''c'' [Variable ''X''] False)))]]"

text \<open>\<open>p' :- q.  p'' :- q.\<close>\<close>

definition two_shift_program :: "statement list" where
  "two_shift_program =
     [Program ''base'' [],
      Rule (Head_Literal (plain_atom (''p'' @ [prime]))) [Body_Literal (plain_atom ''q'')],
      Rule (Head_Literal (plain_atom (''p'' @ [prime, prime]))) [Body_Literal (plain_atom ''q'')]]"

text \<open>\<open>not 'p :- q.\<close>\<close>

definition negated_head_program :: "statement list" where
  "negated_head_program =
     [Program ''base'' [],
      Rule (Head_Literal (Literal Negation (SymbolicAtom (Function (prime # ''p'') [] False))))
        [Body_Literal (plain_atom ''q'')]]"

definition no_atoms :: "int \<Rightarrow> ground_atom list" where
  "no_atoms k = []"

definition always_unsat :: "int \<Rightarrow> int list \<Rightarrow> solve_result" where
  "always_unsat k assumptions = \<lparr>satisfiable = False, unsatisfiable = True, unknown = False\<rparr>"

definition quiet_control :: control where
  "quiet_control = \<lparr>symbolic_atoms = no_atoms, solve_answer = always_unsat\<rparr>"

text \<open>The atoms \<open>__future_p(1,1)\<close> with literal 2 and \<open>q(0)\<close> with literal 3.\<close>

definition future_atoms :: "int \<Rightarrow> ground_atom list" where
  "future_atoms k =
     [\<lparr>symbol = Sym_Function ''__future_p'' [Sym_Number 1, Sym_Number 1], literal = 2\<rparr>,
      \<lparr>symbol = Sym_Function ''q'' [Sym_Number 0], literal = 3\<rparr>]"

definition future_control :: control where
  "future_control = \<lparr>symbolic_atoms = future_atoms, solve_answer = always_unsat\<rparr>"

definition three_parts :: "(string \<times> string \<times> int list) list" where
  "three_parts =
     [(''initial'', ''initial'', [0]), (''static'', ''static'', [0, 1]),
      (''dynamic'', ''dynamic'', [0])]"

section \<open>Positions in a rule\<close>

text \<open>
  The atoms that stand in the body of a rule: the atom of a body literal, and for a
  conditional literal the atom of its literal and the atoms of its conditions. The
  literals that stand in the head: the head literal itself, or the literals of the
  elements of a disjunction.
\<close>

fun literal_atom :: "literal \<Rightarrow> atom" where
  "literal_atom (Literal sg a) = a"

fun body_atoms :: "body_literal \<Rightarrow> atom list" where
  "body_atoms (Body_Literal l) = [literal_atom l]"
| "body_atoms (Body_Conditional (ConditionalLiteral l cond)) =
     literal_atom l # map literal_atom cond"

fun head_literals :: "head \<Rightarrow> literal list" where
  "head_literals (Head_Literal l) = [l]"
| "head_literals (Disjunction es) =
     map (\<lambda>c. case c of ConditionalLiteral l cond \<Rightarrow> l) es"

section \<open>Invariants of the rewriter\<close>

text \<open>
  What visiting a part of a statement leaves as it was: the flags, the parameter and the
  part, and that the registry holds each key once.
\<close>

definition same_context :: "state \<Rightarrow> state \<Rightarrow> bool" where
  "same_context st st' =
     (final st' = final st \<and> head st' = head st \<and> constraint st' = constraint st \<and>
      disjunction st' = disjunction st \<and> parameter st' = parameter st \<and> part st' = part st \<and>
      (distinct (map fst (future_predicates st)) \<longrightarrow>
         distinct (map fst (future_predicates st'))))"

section \<open>Invariants of the loop\<close>

text \<open>
  The marker discipline. With \<open>S\<close> the set of asserted markers, a call of step \<open>k\<close> is
  in order when: an assignment sets the marker of \<open>k\<close> to true while no marker is
  asserted; a release happens at a step after the first, releases the marker of
  \<open>k - 1\<close>, and that is the one asserted marker; cleaning up and grounding happen while no
  marker is asserted; and solving happens while exactly the marker of \<open>k\<close> is asserted.
  A list of calls keeps the discipline from \<open>S\<close> when each call is in order in turn.
\<close>

fun call_ok :: "symbol set \<Rightarrow> int \<times> call \<Rightarrow> bool" where
  "call_ok S (k, Assign_external m v) = (v \<and> m = final_marker k \<and> S = {})"
| "call_ok S (k, Release_external m) = (0 < k \<and> m = final_marker (k - 1) \<and> S = {m})"
| "call_ok S (k, Cleanup) = (S = {})"
| "call_ok S (k, Ground parts) = (S = {})"
| "call_ok S (k, Solve assumptions) = (S = {final_marker k})"

fun markers_ok :: "symbol set \<Rightarrow> (int \<times> call) list \<Rightarrow> bool" where
  "markers_ok S [] = True"
| "markers_ok S (e # cs) = (call_ok S e \<and> markers_ok (apply_call S e) cs)"

definition loop_inv :: "loop_state \<Rightarrow> bool" where
  "loop_inv st =
     (0 \<le> step st \<and>
      markers_ok {} (calls st) \<and>
      (raised st = None \<longrightarrow>
         asserted (calls st) = (if step st = 0 then {} else {final_marker (step st - 1)})) \<and>
      map fst (filter (\<lambda>e. case snd e of Solve as \<Rightarrow> True | _ \<Rightarrow> False) (calls st))
        = [0..step st - 1])"

lemmas eval_defs = transform_def parse_const_def plain_atom_def visit_def visit_Rule_def
  visit_Program_def visit_SymbolicAtom_def get_param_def get_shift_def strip_primes_def
  prime_def bnd_def Let_def initial_state_def final_literal_def future_prefix_def
  time_parameter_name_def future_rules_def variable_prefix_def dict_setdefault_def
  digits.simps

lemmas loop_defs = imain_def body_def loop_cond_def quiet_control_def future_control_def
  no_atoms_def always_unsat_def future_atoms_def by_signature_def last_number_def
  three_parts_def

section \<open>Properties of the shift\<close>

lemma leading_loop_replicate:
  "cs = [] \<or> hd cs \<noteq> prime \<Longrightarrow>
     leading_loop (replicate l prime @ cs) s = s - int l"
proof (induction l arbitrary: s)
  case 0
  then show ?case by (cases cs) auto
next
  case (Suc l)
  then show ?case by simp
qed

lemma dropWhile_replicate_prime:
  "cs = [] \<or> hd cs \<noteq> prime \<Longrightarrow>
     dropWhile (\<lambda>c. c = prime) (replicate l prime @ cs) = cs"
proof (induction l)
  case 0
  then show ?case by (cases cs) auto
next
  case (Suc l)
  then show ?case by simp
qed

lemma strip_primes_markers:
  assumes "core \<noteq> []" "hd core \<noteq> prime" "last core \<noteq> prime"
  shows "strip_primes (replicate l prime @ core @ replicate t prime) = core"
proof -
  have a: "dropWhile (\<lambda>c. c = prime) (replicate l prime @ core @ replicate t prime)
             = core @ replicate t prime"
    using assms by (intro dropWhile_replicate_prime) simp
  have b: "rev (core @ replicate t prime) = replicate t prime @ rev core"
    by simp
  have c: "dropWhile (\<lambda>c. c = prime) (replicate t prime @ rev core) = rev core"
    using assms by (intro dropWhile_replicate_prime) (simp add: hd_rev)
  show ?thesis
    unfolding strip_primes_def a b c by simp
qed

text \<open>
  C4. A functor name made of \<open>l\<close> leading primes, a core name (non-empty, neither
  starting nor ending with a prime) and \<open>t\<close> trailing primes is stripped to its core and
  gets the shift \<open>t - l\<close>, whatever the core is.
\<close>

theorem get_shift_markers:
  assumes "core \<noteq> []" "hd core \<noteq> prime" "last core \<noteq> prime"
  shows "get_shift (replicate l prime @ core @ replicate t prime) = int t - int l
         \<and> strip_primes (replicate l prime @ core @ replicate t prime) = core"
proof -
  have lead: "leading_loop (replicate l prime @ core @ replicate t prime) 0 = - int l"
    using assms leading_loop_replicate [of "core @ replicate t prime" l 0] by simp
  have strip: "strip_primes (replicate l prime @ core @ replicate t prime) = core"
    using assms by (rule strip_primes_markers)
  show ?thesis
    unfolding get_shift_def Let_def lead strip by simp
qed

theorem get_shift_markers_witness:
  "''ab'' \<noteq> [] \<and> hd ''ab'' \<noteq> prime \<and> last ''ab'' \<noteq> prime
   \<and> get_shift (replicate 1 prime @ ''ab'' @ replicate 3 prime) = int 3 - int 1
   \<and> strip_primes (replicate 1 prime @ ''ab'' @ replicate 3 prime) = ''ab''"
  using get_shift_markers [of "''ab''" 1 3] by (simp add: prime_def)

section \<open>Properties of the term rewriter\<close>

lemma map_of_dict_set: "map_of (dict_set k v d) k = Some v"
  by (induction d) auto

lemma map_of_dict_setdefault:
  "map_of (dict_setdefault k v d) k = Some (case map_of d k of None \<Rightarrow> v | Some w \<Rightarrow> w)"
proof (cases "map_of d k")
  case None
  then show ?thesis by (simp add: dict_setdefault_def map_add_def)
next
  case (Some w)
  then show ?thesis by (simp add: dict_setdefault_def)
qed

lemma get_param_redirect:
  assumes "0 < get_shift name" "\<not> fail_future"
  shows "get_param st name arity True fail_future fail_past disjunctive =
     Inr (future_prefix @ strip_primes name,
          [Symbol (PyInt (get_shift name)),
           BinaryOperation Plus (Symbol (Clingo (parameter st))) (Symbol (PyInt (get_shift name)))],
          st\<lparr>future_predicates :=
               (if disjunctive
                then dict_set (strip_primes name, arity, get_shift name) True (future_predicates st)
                else dict_setdefault (strip_primes name, arity, get_shift name) False
                       (future_predicates st))\<rparr>)"
  using assms by (simp add: get_param_def Let_def)

text \<open>
  C8, as the code has it. A function term with positive shift \<open>s\<close>, visited with
  future redirection and without the ban on future references, is renamed to the
  placeholder \<open>__future_\<close> followed by the stripped name; its arguments are the original
  ones followed by the literal \<open>s\<close> and then \<open>parameter + s\<close>, so there are two more of them;
  and the key (stripped name, original arity, \<open>s\<close>) is in the registry afterwards, flagged
  disjunctive when this occurrence is or when the key already was. The literal shift
  stands after the original arguments, not in front of them.
\<close>

theorem head_future_redirect:
  assumes "0 < get_shift name" "\<not> fail_future"
  shows "\<exists>st'. tt_visit True fail_future fail_past disjunctive st (Function name args ext) =
           Inr (Function (future_prefix @ strip_primes name)
                  (args @ [Symbol (PyInt (get_shift name)),
                           BinaryOperation Plus (Symbol (Clingo (parameter st)))
                             (Symbol (PyInt (get_shift name)))]) ext, st')
         \<and> map_of (future_predicates st') (strip_primes name, length args, get_shift name) =
             Some (disjunctive \<or>
                   map_of (future_predicates st) (strip_primes name, length args, get_shift name)
                     = Some True)
         \<and> length (args @ [Symbol (PyInt (get_shift name)),
                           BinaryOperation Plus (Symbol (Clingo (parameter st)))
                             (Symbol (PyInt (get_shift name)))]) = length args + 2"
  using assms
  by (auto simp: get_param_redirect bnd_def map_of_dict_set map_of_dict_setdefault
           split: option.splits)

theorem head_future_redirect_witness:
  "0 < get_shift (''p'' @ [prime]) \<and> \<not> False \<and>
   (\<exists>st'. tt_visit True False True False initial_state
             (Function (''p'' @ [prime]) [Variable ''X''] False) =
           Inr (Function (future_prefix @ ''p'')
                  [Variable ''X'', Symbol (PyInt 1),
                   BinaryOperation Plus (Symbol (Clingo (parameter initial_state)))
                     (Symbol (PyInt 1))] False, st')
         \<and> map_of (future_predicates st') (''p'', 1, 1) = Some False)"
proof -
  have s: "get_shift [CHR ''p'', prime] = 1" and n: "strip_primes [CHR ''p'', prime] = ''p''"
    by (simp_all add: get_shift_def strip_primes_def prime_def)
  have h: "0 < get_shift [CHR ''p'', prime]" by (simp add: s)
  from head_future_redirect [OF h, of False True False initial_state "[Variable ''X'']" False]
  show ?thesis
    by (simp add: s n initial_state_def)
qed

text \<open>
  The claim as stated fails for \<open>p'(X)\<close> in a head: the first argument of the rewritten
  atom is still \<open>X\<close>, and the literal shift follows it.
\<close>

theorem shift_not_leading_counterexample:
  "map_sum id fst (tt_visit True False True False initial_state
             (Function (''p'' @ [prime]) [Variable ''X''] False)) =
   Inr (Function ''__future_p''
          [Variable ''X'', Symbol (PyInt 1),
           BinaryOperation Plus (Symbol (Clingo (Sym_Function ''__t'' []))) (Symbol (PyInt 1))]
          False)"
  by (simp add: eval_defs)

section \<open>Properties of the statement rewriter\<close>

lemma same_context_refl [simp]: "same_context st st"
  by (simp add: same_context_def)

lemma same_context_trans:
  "same_context st st1 \<Longrightarrow> same_context st1 st2 \<Longrightarrow> same_context st st2"
  by (simp add: same_context_def)

lemma keys_dict_set: "fst ` set (dict_set k v d) = insert k (fst ` set d)"
proof (induction d)
  case Nil
  show ?case by simp
next
  case (Cons x d)
  then show ?case by (cases x) (simp add: insert_commute)
qed

lemma distinct_dict_set:
  "distinct (map fst d) \<Longrightarrow> distinct (map fst (dict_set k v d))"
  by (induction d) (auto simp: keys_dict_set)

lemma distinct_dict_setdefault:
  "distinct (map fst d) \<Longrightarrow> distinct (map fst (dict_setdefault k v d))"
proof (cases "map_of d k")
  case None
  assume "distinct (map fst d)"
  moreover have "k \<notin> fst ` set d" using None by (simp add: map_of_eq_None_iff)
  ultimately show ?thesis unfolding dict_setdefault_def None by simp
next
  case (Some w)
  assume "distinct (map fst d)"
  then show ?thesis using Some by (simp add: dict_setdefault_def)
qed

lemma get_param_context:
  "get_param st name arity rf ff fp dj = Inr (n, ps, st') \<Longrightarrow> same_context st st'"
  by (auto simp: get_param_def Let_def same_context_def distinct_dict_set
        distinct_dict_setdefault split: if_splits)

lemma tt_visit_context:
  "tt_visit rf ff fp dj st t = Inr (t', st') \<Longrightarrow> same_context st st'"
  "tt_visit_list rf ff fp dj st ts = Inr (ts', st') \<Longrightarrow> same_context st st'"
proof (induction rf ff fp dj st t and rf ff fp dj st ts arbitrary: t' st' and ts' st'
       rule: tt_visit_tt_visit_list.induct)
  case (1 rf ff fp dj st name args ext)
  then show ?case
    by (auto simp: bnd_def split: sum.splits dest: get_param_context)
next
  case (5 rf ff fp dj st op l r)
  from "5.prems" obtain l' st1 r' where
    a: "tt_visit rf ff fp dj st l = Inr (l', st1)" and
    b: "tt_visit rf ff fp dj st1 r = Inr (r', st')"
    by (auto simp: bnd_def split: sum.splits)
  from "5.IH"(1) [OF a] "5.IH"(2) [OF b] show ?case
    by (rule same_context_trans)
next
  case (6 rf ff fp dj st l r)
  from "6.prems" obtain l' st1 r' where
    a: "tt_visit rf ff fp dj st l = Inr (l', st1)" and
    b: "tt_visit rf ff fp dj st1 r = Inr (r', st')"
    by (auto simp: bnd_def split: sum.splits)
  from "6.IH"(1) [OF a] "6.IH"(2) [OF b] show ?case
    by (rule same_context_trans)
next
  case (10 rf ff fp dj st x xs)
  from "10.prems" obtain x' st1 xs' where
    a: "tt_visit rf ff fp dj st x = Inr (x', st1)" and
    b: "tt_visit_list rf ff fp dj st1 xs = Inr (xs', st')"
    by (auto simp: bnd_def split: sum.splits)
  from "10.IH"(1) [OF a] "10.IH"(2) [OF b] show ?case
    by (rule same_context_trans)
qed (auto simp: bnd_def split: sum.splits)

lemma visit_SymbolicAtom_context:
  "visit_SymbolicAtom st t = Inr (a, st') \<Longrightarrow> same_context st st'"
  by (auto simp: visit_SymbolicAtom_def bnd_def split: sum.splits dest: tt_visit_context)

lemma visit_atom_context:
  "visit_atom st a = Inr (a', st') \<Longrightarrow> same_context st st'"
  by (cases a) (auto simp: bnd_def split: sum.splits dest: visit_SymbolicAtom_context)

lemma visit_Literal_context:
  "visit_Literal st l = Inr (l', st') \<Longrightarrow> same_context st st'"
proof (cases l)
  case (Literal sg a)
  assume "visit_Literal st l = Inr (l', st')"
  then obtain a' st1 where v: "visit_atom (st\<lparr>head := (head st \<and> sg = NoSign)\<rparr>) a = Inr (a', st1)"
    and s: "st' = st1\<lparr>head := head st\<rparr>"
    unfolding Literal by (auto simp: bnd_def Let_def split: sum.splits)
  from visit_atom_context [OF v] show ?thesis
    unfolding s by (simp add: same_context_def)
qed

lemma visit_literals_context:
  "visit_literals st ls = Inr (ls', st') \<Longrightarrow> same_context st st'"
proof (induction ls arbitrary: st ls' st')
  case Nil
  then show ?case by simp
next
  case (Cons l ls)
  from Cons.prems obtain x' st1 xs' where
    a: "visit_Literal st l = Inr (x', st1)" and
    b: "visit_literals st1 ls = Inr (xs', st')"
    by (auto simp: bnd_def split: sum.splits)
  from visit_Literal_context [OF a] Cons.IH [OF b] show ?case
    by (rule same_context_trans)
qed

lemma visit_ConditionalLiteral_context:
  "visit_ConditionalLiteral st c = Inr (c', st') \<Longrightarrow> same_context st st'"
proof (cases c)
  case (ConditionalLiteral l cond)
  assume "visit_ConditionalLiteral st c = Inr (c', st')"
  then obtain l' st1 cond' st2 where a: "visit_Literal st l = Inr (l', st1)"
    and b: "visit_literals (st1\<lparr>head := False\<rparr>) cond = Inr (cond', st2)"
    and s: "st' = st2\<lparr>head := head st1\<rparr>"
    unfolding ConditionalLiteral by (auto simp: bnd_def Let_def split: sum.splits)
  from visit_Literal_context [OF a] visit_literals_context [OF b] show ?thesis
    unfolding s by (simp add: same_context_def)
qed

lemma visit_conditionals_context:
  "visit_conditionals st cs = Inr (cs', st') \<Longrightarrow> same_context st st'"
proof (induction cs arbitrary: st cs' st')
  case Nil
  then show ?case by simp
next
  case (Cons c cs)
  from Cons.prems obtain x' st1 xs' where
    a: "visit_ConditionalLiteral st c = Inr (x', st1)" and
    b: "visit_conditionals st1 cs = Inr (xs', st')"
    by (auto simp: bnd_def split: sum.splits)
  from visit_ConditionalLiteral_context [OF a] Cons.IH [OF b] show ?case
    by (rule same_context_trans)
qed

lemma visit_head_context:
  "visit_head st h = Inr (h', st') \<Longrightarrow> same_context st st'"
  by (cases h) (auto simp: bnd_def split: sum.splits
        dest: visit_Literal_context visit_conditionals_context)

lemma visit_body_literal_context:
  "visit_body_literal st b = Inr (b', st') \<Longrightarrow> same_context st st'"
  by (cases b) (auto simp: bnd_def split: sum.splits
        dest: visit_Literal_context visit_ConditionalLiteral_context)

lemma visit_body_context:
  "visit_body st bs = Inr (bs', st') \<Longrightarrow> same_context st st'"
proof (induction bs arbitrary: st bs' st')
  case Nil
  then show ?case by simp
next
  case (Cons b bs)
  from Cons.prems obtain x' st1 xs' where
    a: "visit_body_literal st b = Inr (x', st1)" and
    b: "visit_body st1 bs = Inr (xs', st')"
    by (auto simp: bnd_def split: sum.splits)
  from visit_body_literal_context [OF a] Cons.IH [OF b] show ?case
    by (rule same_context_trans)
qed

lemma visit_Rule_keys:
  assumes "visit_Rule st h b = Inr (r, st')" "distinct (map fst (future_predicates st))"
  shows "distinct (map fst (future_predicates st'))"
proof -
  let ?st1 = "st\<lparr>head := True, max_shift := 0,
                  constraint := is_constraint h, disjunction := is_disjunction h\<rparr>"
  from assms(1) obtain h' st2 b' st3 where
    a: "visit_head ?st1 h = Inr (h', st2)" and
    b: "visit_body (st2\<lparr>head := False\<rparr>) b = Inr (b', st3)" and
    c: "future_predicates st' = future_predicates st3"
    by (auto simp: visit_Rule_def Let_def bnd_def split: sum.splits if_splits option.splits)
  from visit_head_context [OF a] assms(2) have "distinct (map fst (future_predicates st2))"
    by (simp add: same_context_def)
  with visit_body_context [OF b] show ?thesis
    unfolding c by (simp add: same_context_def)
qed

lemma visit_keys:
  assumes "visit st s = Inr (s', st')" "distinct (map fst (future_predicates st))"
  shows "distinct (map fst (future_predicates st'))"
proof (cases s)
  case (Rule h b)
  then show ?thesis
    using assms by (auto simp: visit_def split: if_splits dest: visit_Rule_keys)
next
  case (Program name params)
  then show ?thesis
    using assms by (auto simp: visit_def visit_Program_def Let_def bnd_def split: sum.splits)
next
  case (External a b)
  from assms(1) obtain b0 a' st1 b' where
    x: "visit_atom st a = Inr (a', st1)" and y: "visit_body st1 b0 = Inr (b', st')"
    unfolding External by (auto simp: visit_def bnd_def split: sum.splits if_splits)
  from visit_atom_context [OF x] visit_body_context [OF y] assms(2) show ?thesis
    by (simp add: same_context_def)
qed (use assms in \<open>auto simp: visit_def bnd_def split: sum.splits\<close>)

lemma visit_all_keys:
  assumes "visit_all st ss acc = Inr (r, st')" "distinct (map fst (future_predicates st))"
  shows "distinct (map fst (future_predicates st'))"
  using assms
proof (induction ss arbitrary: st acc)
  case Nil
  then show ?case by simp
next
  case (Cons s ss)
  from Cons.prems(1) obtain s' st1 where
    a: "visit st s = Inr (s', st1)" and b: "visit_all st1 ss (acc @ [s']) = Inr (r, st')"
    by (auto simp: bnd_def split: sum.splits)
  from Cons.IH [OF b visit_keys [OF a Cons.prems(2)]] show ?case .
qed

lemma rewrite_inputs_keys:
  assumes "rewrite_inputs parse st inputs acc = Inr (r, st')"
    "distinct (map fst (future_predicates st))"
  shows "distinct (map fst (future_predicates st'))"
  using assms
proof (induction inputs arbitrary: st acc)
  case Nil
  then show ?case by simp
next
  case (Cons i inputs)
  from Cons.prems(1) obtain ss acc1 st1 where
    a: "visit_all st ss acc = Inr (acc1, st1)" and
    b: "rewrite_inputs parse st1 inputs acc1 = Inr (r, st')"
    by (auto simp: bnd_def split: sum.splits)
  from Cons.IH [OF b visit_all_keys [OF a Cons.prems(2)]] show ?case .
qed

lemma visit_Literal_future_error:
  assumes "\<not> head st" "\<not> constraint st" "0 < get_shift name"
  shows "visit_Literal st (Literal sg (SymbolicAtom (Function name args ext))) = Inl FutureError"
  using assms by (simp add: visit_SymbolicAtom_def get_param_def Let_def bnd_def)

lemma visit_body_future_error:
  assumes "\<not> head st" "\<not> constraint st" "0 < get_shift name"
    "Body_Literal (Literal sg (SymbolicAtom (Function name args ext))) \<in> set bs"
  shows "\<exists>e. visit_body st bs = Inl e"
  using assms
proof (induction bs arbitrary: st)
  case Nil
  then show ?case by simp
next
  case (Cons b bs)
  show ?case
  proof (cases "visit_body_literal st b")
    case (Inl e)
    then show ?thesis by (simp add: bnd_def)
  next
    case (Inr x)
    obtain b' st1 where x: "x = (b', st1)" by (cases x)
    have ctx: "same_context st st1"
      using Inr unfolding x by (rule visit_body_literal_context)
    have ne: "b \<noteq> Body_Literal (Literal sg (SymbolicAtom (Function name args ext)))"
      using Inr visit_Literal_future_error [OF Cons.prems(1,2,3), of sg args ext]
      by (auto simp: bnd_def)
    then have mem: "Body_Literal (Literal sg (SymbolicAtom (Function name args ext))) \<in> set bs"
      using Cons.prems(4) by auto
    have "\<not> head st1" "\<not> constraint st1"
      using ctx Cons.prems(1,2) by (simp_all add: same_context_def)
    from Cons.IH [OF this Cons.prems(3) mem] obtain e where "visit_body st1 bs = Inl e"
      by blast
    then show ?thesis using Inr unfolding x by (simp add: bnd_def)
  qed
qed

lemma visit_Rule_future_error:
  assumes "\<not> is_constraint h" "0 < get_shift name"
    "Body_Literal (Literal sg (SymbolicAtom (Function name args ext))) \<in> set b"
  shows "\<exists>e. visit_Rule st h b = Inl e"
proof -
  let ?st1 = "st\<lparr>head := True, max_shift := 0,
                  constraint := is_constraint h, disjunction := is_disjunction h\<rparr>"
  show ?thesis
  proof (cases "visit_head ?st1 h")
    case (Inl e)
    then show ?thesis by (simp add: visit_Rule_def Let_def bnd_def)
  next
    case (Inr x)
    obtain h' st2 where x: "x = (h', st2)" by (cases x)
    have "same_context ?st1 st2" using Inr unfolding x by (rule visit_head_context)
    then have c: "\<not> constraint (st2\<lparr>head := False\<rparr>)" and hd: "\<not> head (st2\<lparr>head := False\<rparr>)"
      using assms(1) by (simp_all add: same_context_def)
    from visit_body_future_error [OF hd c assms(2,3)] obtain e where
      "visit_body (st2\<lparr>head := False\<rparr>) b = Inl e" by blast
    then show ?thesis using Inr unfolding x by (simp add: visit_Rule_def Let_def bnd_def)
  qed
qed

lemma visit_rule_future_error:
  assumes "\<not> is_constraint h" "0 < get_shift name"
    "Body_Literal (Literal sg (SymbolicAtom (Function name args ext))) \<in> set b"
  shows "\<exists>e. visit st (Rule h b) = Inl e"
proof (cases "final st")
  case True
  have "Body_Literal (Literal sg (SymbolicAtom (Function name args ext)))
          \<in> set (b @ [final_literal st False])"
    using assms(3) by simp
  from visit_Rule_future_error [OF assms(1,2) this] show ?thesis
    using True by (simp add: visit_def)
next
  case False
  from visit_Rule_future_error [OF assms] show ?thesis
    using False by (simp add: visit_def)
qed

lemma visit_rule_past_error:
  assumes "get_shift name < 0"
  shows "visit st (Rule (Head_Literal (Literal NoSign (SymbolicAtom (Function name args ext)))) b)
           = Inl PastError"
  using assms
  by (simp add: visit_def visit_Rule_def visit_SymbolicAtom_def get_param_def Let_def bnd_def)

lemma visit_Literal_signed:
  assumes "sg \<noteq> NoSign" "constraint st" "get_shift name \<noteq> 0"
  shows "\<exists>st'. visit_Literal st (Literal sg (SymbolicAtom (Function name args ext))) =
           Inr (Literal sg (SymbolicAtom (Function (strip_primes name)
                  (args @ [BinaryOperation Plus (Symbol (Clingo (parameter st)))
                             (Symbol (PyInt (get_shift name)))]) ext)), st')"
  using assms
  by (auto simp: visit_SymbolicAtom_def get_param_def Let_def bnd_def)

lemma visit_all_fails:
  assumes "s \<in> set ss" "\<forall>st. \<exists>e. visit st s = Inl e"
  shows "\<exists>e. visit_all st ss acc = Inl e"
  using assms(1)
proof (induction ss arbitrary: st acc)
  case Nil
  then show ?case by simp
next
  case (Cons x ss)
  show ?case
  proof (cases "visit st x")
    case (Inl e)
    then show ?thesis by (simp add: bnd_def)
  next
    case (Inr y)
    obtain x' st1 where y: "y = (x', st1)" by (cases y)
    have "x \<noteq> s" using Inr assms(2) by (metis Inl_Inr_False)
    then have "s \<in> set ss" using Cons.prems by auto
    from Cons.IH [OF this] obtain e where "visit_all st1 ss (acc @ [x']) = Inl e" by blast
    then show ?thesis using Inr unfolding y by (simp add: bnd_def)
  qed
qed

lemma rewrite_inputs_fails:
  assumes "i \<in> set inputs" "parse i = Inr ss" "s \<in> set ss" "\<forall>st. \<exists>e. visit st s = Inl e"
  shows "\<exists>e. rewrite_inputs parse st inputs acc = Inl e"
  using assms(1)
proof (induction inputs arbitrary: st acc)
  case Nil
  then show ?case by simp
next
  case (Cons j inputs)
  show ?case
  proof (cases "bnd (parse j) (\<lambda>ss. visit_all st ss acc)")
    case (Inl e)
    then show ?thesis by (auto simp: bnd_def split: sum.splits)
  next
    case (Inr y)
    obtain acc1 st1 where y: "y = (acc1, st1)" by (cases y)
    have "j \<noteq> i"
    proof
      assume "j = i"
      then have "visit_all st ss acc = Inr (acc1, st1)"
        using Inr assms(2) unfolding y by (simp add: bnd_def)
      with visit_all_fails [of s ss st acc] assms(3,4) show False by auto
    qed
    then have "i \<in> set inputs" using Cons.prems by auto
    from Cons.IH [OF this] obtain e where "rewrite_inputs parse st1 inputs acc1 = Inl e"
      by blast
    then show ?thesis using Inr unfolding y by (auto simp: bnd_def split: sum.splits)
  qed
qed

lemma transform_fails:
  assumes "i \<in> set inputs" "parse i = Inr ss" "s \<in> set ss" "\<forall>st. \<exists>e. visit st s = Inl e"
  shows "\<exists>e. transform parse inputs = Inl e"
proof -
  from rewrite_inputs_fails [of i inputs parse ss s initial_state "[]"] assms obtain e where
    "rewrite_inputs parse initial_state inputs [] = Inl e" by blast
  then show ?thesis by (simp add: transform_def bnd_def)
qed

lemma visit_Literal_atom_future_error:
  assumes "\<not> head st" "\<not> constraint st" "0 < get_shift name"
    "literal_atom l = SymbolicAtom (Function name args ext)"
  shows "visit_Literal st l = Inl FutureError"
proof (cases l)
  case (Literal sg a)
  then show ?thesis
    using assms visit_Literal_future_error [of st name sg args ext] by simp
qed

lemma visit_literals_future_error:
  assumes "\<not> head st" "\<not> constraint st" "0 < get_shift name"
    "SymbolicAtom (Function name args ext) \<in> set (map literal_atom ls)"
  shows "\<exists>e. visit_literals st ls = Inl e"
  using assms
proof (induction ls arbitrary: st)
  case Nil
  then show ?case by simp
next
  case (Cons l ls)
  show ?case
  proof (cases "visit_Literal st l")
    case (Inl e)
    then show ?thesis by (simp add: bnd_def)
  next
    case (Inr x)
    obtain l' st1 where x: "x = (l', st1)" by (cases x)
    have ctx: "same_context st st1"
      using Inr unfolding x by (rule visit_Literal_context)
    have "literal_atom l \<noteq> SymbolicAtom (Function name args ext)"
      using Inr visit_Literal_atom_future_error [OF Cons.prems(1,2,3), of l args ext]
      by auto
    then have mem: "SymbolicAtom (Function name args ext) \<in> set (map literal_atom ls)"
      using Cons.prems(4) by auto
    have "\<not> head st1" "\<not> constraint st1"
      using ctx Cons.prems(1,2) by (simp_all add: same_context_def)
    from Cons.IH [OF this Cons.prems(3) mem] obtain e where "visit_literals st1 ls = Inl e"
      by blast
    then show ?thesis using Inr unfolding x by (simp add: bnd_def)
  qed
qed

lemma visit_body_literal_future_error:
  assumes "\<not> head st" "\<not> constraint st" "0 < get_shift name"
    "SymbolicAtom (Function name args ext) \<in> set (body_atoms bl)"
  shows "\<exists>e. visit_body_literal st bl = Inl e"
proof (cases bl)
  case (Body_Literal l)
  then have "literal_atom l = SymbolicAtom (Function name args ext)"
    using assms(4) by simp
  from visit_Literal_atom_future_error [OF assms(1,2,3) this] show ?thesis
    unfolding Body_Literal by (simp add: bnd_def)
next
  case (Body_Conditional c)
  obtain l cond where c: "c = ConditionalLiteral l cond" by (cases c)
  show ?thesis
  proof (cases "visit_Literal st l")
    case (Inl e)
    then show ?thesis unfolding Body_Conditional c by (simp add: bnd_def)
  next
    case (Inr x)
    obtain l' st1 where x: "x = (l', st1)" by (cases x)
    have ctx: "same_context st st1"
      using Inr unfolding x by (rule visit_Literal_context)
    have "literal_atom l \<noteq> SymbolicAtom (Function name args ext)"
      using Inr visit_Literal_atom_future_error [OF assms(1,2,3), of l args ext] by auto
    then have mem: "SymbolicAtom (Function name args ext) \<in> set (map literal_atom cond)"
      using assms(4) unfolding Body_Conditional c by auto
    have "\<not> head (st1\<lparr>head := False\<rparr>)" "\<not> constraint (st1\<lparr>head := False\<rparr>)"
      using ctx assms(2) by (simp_all add: same_context_def)
    from visit_literals_future_error [OF this assms(3) mem] obtain e where
      "visit_literals (st1\<lparr>head := False\<rparr>) cond = Inl e" by blast
    then show ?thesis
      using Inr unfolding Body_Conditional c x by (simp add: bnd_def Let_def)
  qed
qed

lemma visit_body_atoms_future_error:
  assumes "\<not> head st" "\<not> constraint st" "0 < get_shift name"
    "SymbolicAtom (Function name args ext) \<in> set (concat (map body_atoms bs))"
  shows "\<exists>e. visit_body st bs = Inl e"
  using assms
proof (induction bs arbitrary: st)
  case Nil
  then show ?case by simp
next
  case (Cons b bs)
  show ?case
  proof (cases "visit_body_literal st b")
    case (Inl e)
    then show ?thesis by (simp add: bnd_def)
  next
    case (Inr x)
    obtain b' st1 where x: "x = (b', st1)" by (cases x)
    have ctx: "same_context st st1"
      using Inr unfolding x by (rule visit_body_literal_context)
    have "SymbolicAtom (Function name args ext) \<notin> set (body_atoms b)"
      using Inr visit_body_literal_future_error [OF Cons.prems(1,2,3), of args ext b]
      by auto
    then have mem: "SymbolicAtom (Function name args ext) \<in> set (concat (map body_atoms bs))"
      using Cons.prems(4) by auto
    have "\<not> head st1" "\<not> constraint st1"
      using ctx Cons.prems(1,2) by (simp_all add: same_context_def)
    from Cons.IH [OF this Cons.prems(3) mem] obtain e where "visit_body st1 bs = Inl e"
      by blast
    then show ?thesis using Inr unfolding x by (simp add: bnd_def)
  qed
qed

lemma visit_rule_body_atom_future_error:
  assumes "\<not> is_constraint h" "0 < get_shift name"
    "SymbolicAtom (Function name args ext) \<in> set (concat (map body_atoms b))"
  shows "\<exists>e. visit st (Rule h b) = Inl e"
proof -
  let ?st1 = "st\<lparr>head := True, max_shift := 0,
                  constraint := is_constraint h, disjunction := is_disjunction h\<rparr>"
  let ?b = "if final st then b @ [final_literal st False] else b"
  have mem: "SymbolicAtom (Function name args ext) \<in> set (concat (map body_atoms ?b))"
    using assms(3) by simp
  have v: "visit st (Rule h b) = visit_Rule st h ?b"
    by (simp add: visit_def)
  show ?thesis
  proof (cases "visit_head ?st1 h")
    case (Inl e)
    then show ?thesis unfolding v by (simp add: visit_Rule_def Let_def bnd_def)
  next
    case (Inr x)
    obtain h' st2 where x: "x = (h', st2)" by (cases x)
    have "same_context ?st1 st2" using Inr unfolding x by (rule visit_head_context)
    then have c: "\<not> constraint (st2\<lparr>head := False\<rparr>)" and hd: "\<not> head (st2\<lparr>head := False\<rparr>)"
      using assms(1) by (simp_all add: same_context_def)
    from visit_body_atoms_future_error [OF hd c assms(2) mem] obtain e where
      "visit_body (st2\<lparr>head := False\<rparr>) ?b = Inl e" by blast
    then show ?thesis using Inr unfolding v x by (simp add: visit_Rule_def Let_def bnd_def)
  qed
qed

lemma visit_Literal_past_error:
  assumes "head st" "get_shift name < 0"
  shows "visit_Literal st (Literal NoSign (SymbolicAtom (Function name args ext))) = Inl PastError"
  using assms by (simp add: visit_SymbolicAtom_def get_param_def Let_def bnd_def)

lemma visit_conditionals_past_error:
  assumes "head st" "get_shift name < 0"
    "Literal NoSign (SymbolicAtom (Function name args ext))
       \<in> set (map (\<lambda>c. case c of ConditionalLiteral l cond \<Rightarrow> l) es)"
  shows "\<exists>e. visit_conditionals st es = Inl e"
  using assms
proof (induction es arbitrary: st)
  case Nil
  then show ?case by simp
next
  case (Cons c es)
  obtain l cond where c: "c = ConditionalLiteral l cond" by (cases c)
  show ?case
  proof (cases "visit_ConditionalLiteral st c")
    case (Inl e)
    then show ?thesis by (simp add: bnd_def)
  next
    case (Inr x)
    obtain c' st1 where x: "x = (c', st1)" by (cases x)
    have ctx: "same_context st st1"
      using Inr unfolding x by (rule visit_ConditionalLiteral_context)
    have "l \<noteq> Literal NoSign (SymbolicAtom (Function name args ext))"
    proof
      assume "l = Literal NoSign (SymbolicAtom (Function name args ext))"
      then have "visit_ConditionalLiteral st c = Inl PastError"
        unfolding c using visit_Literal_past_error [OF Cons.prems(1,2), of args ext]
        by (simp add: bnd_def)
      with Inr show False by simp
    qed
    then have mem: "Literal NoSign (SymbolicAtom (Function name args ext))
       \<in> set (map (\<lambda>c. case c of ConditionalLiteral l cond \<Rightarrow> l) es)"
      using Cons.prems(3) unfolding c by auto
    have "head st1" using ctx Cons.prems(1) by (simp add: same_context_def)
    from Cons.IH [OF this Cons.prems(2) mem] obtain e where "visit_conditionals st1 es = Inl e"
      by blast
    then show ?thesis using Inr unfolding x by (simp add: bnd_def)
  qed
qed

lemma visit_rule_head_past_error:
  assumes "get_shift name < 0"
    "Literal NoSign (SymbolicAtom (Function name args ext)) \<in> set (head_literals h)"
  shows "\<exists>e. visit st (Rule h b) = Inl e"
proof -
  let ?st1 = "st\<lparr>head := True, max_shift := 0,
                  constraint := is_constraint h, disjunction := is_disjunction h\<rparr>"
  have "\<exists>e. visit_head ?st1 h = Inl e"
  proof (cases h)
    case (Head_Literal l)
    then have "l = Literal NoSign (SymbolicAtom (Function name args ext))"
      using assms(2) by simp
    then show ?thesis
      unfolding Head_Literal using assms(1)
      by (simp add: visit_SymbolicAtom_def get_param_def Let_def bnd_def)
  next
    case (Disjunction es)
    have "head ?st1" by simp
    from visit_conditionals_past_error [OF this assms(1), of args ext es] assms(2)
    show ?thesis unfolding Disjunction by (auto simp: bnd_def)
  qed
  then show ?thesis
    by (auto simp: visit_def visit_Rule_def Let_def bnd_def)
qed

lemma visit_head_signed:
  assumes "sg \<noteq> NoSign" "get_shift name \<noteq> 0"
  shows "\<exists>st'. visit_head
           (st\<lparr>head := True, max_shift := 0,
               constraint := is_constraint
                 (Head_Literal (Literal sg (SymbolicAtom (Function name args ext)))),
               disjunction := is_disjunction
                 (Head_Literal (Literal sg (SymbolicAtom (Function name args ext))))\<rparr>)
           (Head_Literal (Literal sg (SymbolicAtom (Function name args ext)))) =
         Inr (Head_Literal (Literal sg (SymbolicAtom (Function (strip_primes name)
                (args @ [BinaryOperation Plus (Symbol (Clingo (parameter st)))
                           (Symbol (PyInt (get_shift name)))]) ext))), st')"
  using assms
  by (auto simp: visit_SymbolicAtom_def get_param_def Let_def bnd_def)

lemma visit_head_unsigned_future:
  assumes "0 < get_shift name"
  shows "\<exists>st'. visit_head
           (st\<lparr>head := True, max_shift := 0,
               constraint := is_constraint
                 (Head_Literal (Literal NoSign (SymbolicAtom (Function name args ext)))),
               disjunction := is_disjunction
                 (Head_Literal (Literal NoSign (SymbolicAtom (Function name args ext))))\<rparr>)
           (Head_Literal (Literal NoSign (SymbolicAtom (Function name args ext)))) =
         Inr (Head_Literal (Literal NoSign (SymbolicAtom
                (Function (future_prefix @ strip_primes name)
                   (args @ [Symbol (PyInt (get_shift name)),
                            BinaryOperation Plus (Symbol (Clingo (parameter st)))
                              (Symbol (PyInt (get_shift name)))]) ext))), st')"
  using assms
  by (auto simp: visit_SymbolicAtom_def get_param_def Let_def bnd_def)

lemma visit_rule_signed_accepted:
  assumes "sg \<noteq> NoSign" "get_shift name \<noteq> 0" "part st = Some pt"
    "parameter st = Sym_Function pn pargs"
  shows "\<exists>b' st'. visit st (Rule (Head_Literal (Literal sg (SymbolicAtom (Function name args ext)))) [])
           = Inr (Rule (Head_Literal (Literal sg (SymbolicAtom (Function (strip_primes name)
                (args @ [BinaryOperation Plus (Symbol (Clingo (parameter st)))
                           (Symbol (PyInt (get_shift name)))]) ext)))) b', st')"
  using assms
  by (auto simp: visit_def visit_Rule_def visit_SymbolicAtom_def get_param_def Let_def bnd_def
        final_literal_def get_shift_def strip_primes_def prime_def)

lemma atom_policy_core:
  "(\<not> head st \<and> \<not> constraint st \<and> 0 < get_shift name \<longrightarrow>
      visit_SymbolicAtom st (Function name args ext) = Inl FutureError)
   \<and> (\<not> head st \<and> constraint st \<and> 0 < get_shift name \<longrightarrow>
      visit_SymbolicAtom st (Function name args ext) =
        Inr (SymbolicAtom (Function (strip_primes name)
               (args @ [BinaryOperation Plus (Symbol (Clingo (parameter st)))
                          (Symbol (PyInt (get_shift name)))]) ext),
             st\<lparr>max_shift := max (max_shift st) (get_shift name)\<rparr>))
   \<and> (head st \<and> get_shift name < 0 \<longrightarrow>
      visit_SymbolicAtom st (Function name args ext) = Inl PastError)
   \<and> (head st \<and> 0 < get_shift name \<longrightarrow>
      (\<exists>st'. visit_SymbolicAtom st (Function name args ext) =
        Inr (SymbolicAtom (Function (future_prefix @ strip_primes name)
               (args @ [Symbol (PyInt (get_shift name)),
                        BinaryOperation Plus (Symbol (Clingo (parameter st)))
                          (Symbol (PyInt (get_shift name)))]) ext), st')))
   \<and> (head st \<and> 0 < get_shift name \<longrightarrow>
      (\<exists>st'. visit_Literal st (Literal NoSign (SymbolicAtom (Function name args ext))) =
        Inr (Literal NoSign (SymbolicAtom (Function (future_prefix @ strip_primes name)
               (args @ [Symbol (PyInt (get_shift name)),
                        BinaryOperation Plus (Symbol (Clingo (parameter st)))
                          (Symbol (PyInt (get_shift name)))]) ext)), st')))
   \<and> (sg \<noteq> NoSign \<longrightarrow> is_constraint (Head_Literal (Literal sg a)))
   \<and> (sg \<noteq> NoSign \<and> constraint st \<and> get_shift name \<noteq> 0 \<longrightarrow>
      (\<exists>st'. visit_Literal st (Literal sg (SymbolicAtom (Function name args ext))) =
        Inr (Literal sg (SymbolicAtom (Function (strip_primes name)
               (args @ [BinaryOperation Plus (Symbol (Clingo (parameter st)))
                          (Symbol (PyInt (get_shift name)))]) ext)), st')))
   \<and> (i \<in> set inputs \<and> parse i = Inr ss \<and> Rule h b \<in> set ss \<and> \<not> is_constraint h \<and>
       Body_Literal (Literal sg (SymbolicAtom (Function name args ext))) \<in> set b \<and>
       0 < get_shift name \<longrightarrow>
      (\<exists>e. transform parse inputs = Inl e))
   \<and> (i \<in> set inputs \<and> parse i = Inr ss \<and>
       Rule (Head_Literal (Literal NoSign (SymbolicAtom (Function name args ext)))) b \<in> set ss \<and>
       get_shift name < 0 \<longrightarrow>
      (\<exists>e. transform parse inputs = Inl e))"
proof -
  have atom: "(\<not> head st \<and> \<not> constraint st \<and> 0 < get_shift name \<longrightarrow>
      visit_SymbolicAtom st (Function name args ext) = Inl FutureError)
   \<and> (\<not> head st \<and> constraint st \<and> 0 < get_shift name \<longrightarrow>
      visit_SymbolicAtom st (Function name args ext) =
        Inr (SymbolicAtom (Function (strip_primes name)
               (args @ [BinaryOperation Plus (Symbol (Clingo (parameter st)))
                          (Symbol (PyInt (get_shift name)))]) ext),
             st\<lparr>max_shift := max (max_shift st) (get_shift name)\<rparr>))
   \<and> (head st \<and> get_shift name < 0 \<longrightarrow>
      visit_SymbolicAtom st (Function name args ext) = Inl PastError)
   \<and> (head st \<and> 0 < get_shift name \<longrightarrow>
      (\<exists>st'. visit_SymbolicAtom st (Function name args ext) =
        Inr (SymbolicAtom (Function (future_prefix @ strip_primes name)
               (args @ [Symbol (PyInt (get_shift name)),
                        BinaryOperation Plus (Symbol (Clingo (parameter st)))
                          (Symbol (PyInt (get_shift name)))]) ext), st')))"
    by (auto simp: visit_SymbolicAtom_def get_param_def Let_def bnd_def)
  have lit: "head st \<and> 0 < get_shift name \<longrightarrow>
      (\<exists>st'. visit_Literal st (Literal NoSign (SymbolicAtom (Function name args ext))) =
        Inr (Literal NoSign (SymbolicAtom (Function (future_prefix @ strip_primes name)
               (args @ [Symbol (PyInt (get_shift name)),
                        BinaryOperation Plus (Symbol (Clingo (parameter st)))
                          (Symbol (PyInt (get_shift name)))]) ext)), st'))"
    by (auto simp: visit_SymbolicAtom_def get_param_def Let_def bnd_def)
  have con: "sg \<noteq> NoSign \<longrightarrow> is_constraint (Head_Literal (Literal sg a))"
    by simp
  have sgn: "sg \<noteq> NoSign \<and> constraint st \<and> get_shift name \<noteq> 0 \<longrightarrow>
      (\<exists>st'. visit_Literal st (Literal sg (SymbolicAtom (Function name args ext))) =
        Inr (Literal sg (SymbolicAtom (Function (strip_primes name)
               (args @ [BinaryOperation Plus (Symbol (Clingo (parameter st)))
                          (Symbol (PyInt (get_shift name)))]) ext)), st'))"
    using visit_Literal_signed [of sg st name args ext] by blast
  have fut: "i \<in> set inputs \<and> parse i = Inr ss \<and> Rule h b \<in> set ss \<and> \<not> is_constraint h \<and>
       Body_Literal (Literal sg (SymbolicAtom (Function name args ext))) \<in> set b \<and>
       0 < get_shift name \<longrightarrow>
      (\<exists>e. transform parse inputs = Inl e)"
  proof
    assume p: "i \<in> set inputs \<and> parse i = Inr ss \<and> Rule h b \<in> set ss \<and> \<not> is_constraint h \<and>
       Body_Literal (Literal sg (SymbolicAtom (Function name args ext))) \<in> set b \<and>
       0 < get_shift name"
    then have "\<forall>st. \<exists>e. visit st (Rule h b) = Inl e"
      using visit_rule_future_error [of h name sg args ext b] by blast
    with p show "\<exists>e. transform parse inputs = Inl e"
      using transform_fails [of i inputs parse ss "Rule h b"] by blast
  qed
  have pst: "i \<in> set inputs \<and> parse i = Inr ss \<and>
       Rule (Head_Literal (Literal NoSign (SymbolicAtom (Function name args ext)))) b \<in> set ss \<and>
       get_shift name < 0 \<longrightarrow>
      (\<exists>e. transform parse inputs = Inl e)"
  proof
    assume p: "i \<in> set inputs \<and> parse i = Inr ss \<and>
       Rule (Head_Literal (Literal NoSign (SymbolicAtom (Function name args ext)))) b \<in> set ss \<and>
       get_shift name < 0"
    then have "\<forall>st. \<exists>e.
        visit st (Rule (Head_Literal (Literal NoSign (SymbolicAtom (Function name args ext)))) b)
          = Inl e"
      using visit_rule_past_error [of name _ args ext b] by blast
    with p show "\<exists>e. transform parse inputs = Inl e"
      using transform_fails [of i inputs parse ss
               "Rule (Head_Literal (Literal NoSign (SymbolicAtom (Function name args ext)))) b"]
      by blast
  qed
  show ?thesis
    by (intro conjI atom [THEN conjunct1] atom [THEN conjunct2, THEN conjunct1]
          atom [THEN conjunct2, THEN conjunct2, THEN conjunct1]
          atom [THEN conjunct2, THEN conjunct2, THEN conjunct2] lit con sgn fut pst)
qed

text \<open>
  C5, as the code has it. At a symbolic atom over a function term: outside a head
  position and outside a constraint a positive shift raises the future-reference error;
  outside a head position and inside a constraint the same atom is rewritten (the time
  argument becomes \<open>parameter + shift\<close> and \<open>max_shift\<close> is raised); in a head position a
  negative shift raises the past-reference error; in a head position a positive shift
  does not raise and gives the placeholder atom. The atom of a head literal without sign
  is in a head position. When the head of a rule is a single literal with a sign, the
  rule is a constraint and the atom of that literal is not in a head position: visiting
  the head rewrites it with a shift of either sign and does not redirect it, and the rule
  with an empty body is accepted once a \<open>#program\<close> statement has set the part. Visiting a
  head, a body literal or a conditional literal leaves the head and constraint flags as
  they were, so every body literal of a rule is visited outside a head position and
  with the constraint flag of the rule. On whole inputs: a rule that is no constraint
  and has a future atom in its body (as a body literal, or as the literal or a condition
  of a conditional literal), and a rule with a past atom in an unsigned head literal
  (the head itself or the literal of an element of a disjunction), make \<open>transform\<close>
  fail.
\<close>

theorem shift_policy:
  "(\<not> head st \<and> \<not> constraint st \<and> 0 < get_shift name \<longrightarrow>
      visit_SymbolicAtom st (Function name args ext) = Inl FutureError)
   \<and> (\<not> head st \<and> constraint st \<and> 0 < get_shift name \<longrightarrow>
      visit_SymbolicAtom st (Function name args ext) =
        Inr (SymbolicAtom (Function (strip_primes name)
               (args @ [BinaryOperation Plus (Symbol (Clingo (parameter st)))
                          (Symbol (PyInt (get_shift name)))]) ext),
             st\<lparr>max_shift := max (max_shift st) (get_shift name)\<rparr>))
   \<and> (head st \<and> get_shift name < 0 \<longrightarrow>
      visit_SymbolicAtom st (Function name args ext) = Inl PastError)
   \<and> (head st \<and> 0 < get_shift name \<longrightarrow>
      (\<exists>st'. visit_SymbolicAtom st (Function name args ext) =
        Inr (SymbolicAtom (Function (future_prefix @ strip_primes name)
               (args @ [Symbol (PyInt (get_shift name)),
                        BinaryOperation Plus (Symbol (Clingo (parameter st)))
                          (Symbol (PyInt (get_shift name)))]) ext), st')))
   \<and> (head st \<and> 0 < get_shift name \<longrightarrow>
      (\<exists>st'. visit_Literal st (Literal NoSign (SymbolicAtom (Function name args ext))) =
        Inr (Literal NoSign (SymbolicAtom (Function (future_prefix @ strip_primes name)
               (args @ [Symbol (PyInt (get_shift name)),
                        BinaryOperation Plus (Symbol (Clingo (parameter st)))
                          (Symbol (PyInt (get_shift name)))]) ext)), st')))
   \<and> (sg \<noteq> NoSign \<longrightarrow> is_constraint (Head_Literal (Literal sg a)))
   \<and> (sg \<noteq> NoSign \<and> constraint st \<and> get_shift name \<noteq> 0 \<longrightarrow>
      (\<exists>st'. visit_Literal st (Literal sg (SymbolicAtom (Function name args ext))) =
        Inr (Literal sg (SymbolicAtom (Function (strip_primes name)
               (args @ [BinaryOperation Plus (Symbol (Clingo (parameter st)))
                          (Symbol (PyInt (get_shift name)))]) ext)), st')))
   \<and> (i \<in> set inputs \<and> parse i = Inr ss \<and> Rule h b \<in> set ss \<and> \<not> is_constraint h \<and>
       Body_Literal (Literal sg (SymbolicAtom (Function name args ext))) \<in> set b \<and>
       0 < get_shift name \<longrightarrow>
      (\<exists>e. transform parse inputs = Inl e))
   \<and> (i \<in> set inputs \<and> parse i = Inr ss \<and>
       Rule (Head_Literal (Literal NoSign (SymbolicAtom (Function name args ext)))) b \<in> set ss \<and>
       get_shift name < 0 \<longrightarrow>
      (\<exists>e. transform parse inputs = Inl e))
   \<and> (sg \<noteq> NoSign \<and> get_shift name \<noteq> 0 \<longrightarrow>
      (\<exists>st'. visit_head
           (st\<lparr>head := True, max_shift := 0,
               constraint := is_constraint
                 (Head_Literal (Literal sg (SymbolicAtom (Function name args ext)))),
               disjunction := is_disjunction
                 (Head_Literal (Literal sg (SymbolicAtom (Function name args ext))))\<rparr>)
           (Head_Literal (Literal sg (SymbolicAtom (Function name args ext)))) =
         Inr (Head_Literal (Literal sg (SymbolicAtom (Function (strip_primes name)
                (args @ [BinaryOperation Plus (Symbol (Clingo (parameter st)))
                           (Symbol (PyInt (get_shift name)))]) ext))), st')))
   \<and> (sg \<noteq> NoSign \<and> get_shift name \<noteq> 0 \<and> part st = Some pt \<and>
       parameter st = Sym_Function pn pargs \<longrightarrow>
      (\<exists>b' st'.
         visit st (Rule (Head_Literal (Literal sg (SymbolicAtom (Function name args ext)))) [])
           = Inr (Rule (Head_Literal (Literal sg (SymbolicAtom (Function (strip_primes name)
                (args @ [BinaryOperation Plus (Symbol (Clingo (parameter st)))
                           (Symbol (PyInt (get_shift name)))]) ext)))) b', st')))
   \<and> (0 < get_shift name \<longrightarrow>
      (\<exists>st'. visit_head
           (st\<lparr>head := True, max_shift := 0,
               constraint := is_constraint
                 (Head_Literal (Literal NoSign (SymbolicAtom (Function name args ext)))),
               disjunction := is_disjunction
                 (Head_Literal (Literal NoSign (SymbolicAtom (Function name args ext))))\<rparr>)
           (Head_Literal (Literal NoSign (SymbolicAtom (Function name args ext)))) =
         Inr (Head_Literal (Literal NoSign (SymbolicAtom
                (Function (future_prefix @ strip_primes name)
                   (args @ [Symbol (PyInt (get_shift name)),
                            BinaryOperation Plus (Symbol (Clingo (parameter st)))
                              (Symbol (PyInt (get_shift name)))]) ext))), st')))
   \<and> (visit_head st h = Inr (h1, st1) \<longrightarrow>
        head st1 = head st \<and> constraint st1 = constraint st)
   \<and> (visit_body_literal st bl = Inr (bl1, st1) \<longrightarrow>
        head st1 = head st \<and> constraint st1 = constraint st)
   \<and> (visit_ConditionalLiteral st c = Inr (c1, st1) \<longrightarrow>
        head st1 = head st \<and> constraint st1 = constraint st)
   \<and> (i \<in> set inputs \<and> parse i = Inr ss \<and> Rule h b \<in> set ss \<and> \<not> is_constraint h \<and>
       SymbolicAtom (Function name args ext) \<in> set (concat (map body_atoms b)) \<and>
       0 < get_shift name \<longrightarrow>
      (\<exists>e. transform parse inputs = Inl e))
   \<and> (i \<in> set inputs \<and> parse i = Inr ss \<and> Rule h b \<in> set ss \<and>
       Literal NoSign (SymbolicAtom (Function name args ext)) \<in> set (head_literals h) \<and>
       get_shift name < 0 \<longrightarrow>
      (\<exists>e. transform parse inputs = Inl e))"
proof -
  note core = atom_policy_core [where st = st and name = name and args = args and ext = ext
      and sg = sg and a = a and i = i and inputs = inputs and parse = parse and ss = ss
      and h = h and b = b]
  note c1 = core [THEN conjunct1]
  note c2 = core [THEN conjunct2, THEN conjunct1]
  note c3 = core [THEN conjunct2, THEN conjunct2, THEN conjunct1]
  note c4 = core [THEN conjunct2, THEN conjunct2, THEN conjunct2, THEN conjunct1]
  note c5 = core [THEN conjunct2, THEN conjunct2, THEN conjunct2, THEN conjunct2,
                  THEN conjunct1]
  note c6 = core [THEN conjunct2, THEN conjunct2, THEN conjunct2, THEN conjunct2,
                  THEN conjunct2, THEN conjunct1]
  note c7 = core [THEN conjunct2, THEN conjunct2, THEN conjunct2, THEN conjunct2,
                  THEN conjunct2, THEN conjunct2, THEN conjunct1]
  note c8 = core [THEN conjunct2, THEN conjunct2, THEN conjunct2, THEN conjunct2,
                  THEN conjunct2, THEN conjunct2, THEN conjunct2, THEN conjunct1]
  note c9 = core [THEN conjunct2, THEN conjunct2, THEN conjunct2, THEN conjunct2,
                  THEN conjunct2, THEN conjunct2, THEN conjunct2, THEN conjunct2]
  have n1: "sg \<noteq> NoSign \<and> get_shift name \<noteq> 0 \<longrightarrow>
      (\<exists>st'. visit_head
           (st\<lparr>head := True, max_shift := 0,
               constraint := is_constraint
                 (Head_Literal (Literal sg (SymbolicAtom (Function name args ext)))),
               disjunction := is_disjunction
                 (Head_Literal (Literal sg (SymbolicAtom (Function name args ext))))\<rparr>)
           (Head_Literal (Literal sg (SymbolicAtom (Function name args ext)))) =
         Inr (Head_Literal (Literal sg (SymbolicAtom (Function (strip_primes name)
                (args @ [BinaryOperation Plus (Symbol (Clingo (parameter st)))
                           (Symbol (PyInt (get_shift name)))]) ext))), st'))"
    using visit_head_signed [where sg = sg and name = name and st = st and args = args
        and ext = ext] by blast
  have n2: "sg \<noteq> NoSign \<and> get_shift name \<noteq> 0 \<and> part st = Some pt \<and>
       parameter st = Sym_Function pn pargs \<longrightarrow>
      (\<exists>b' st'.
         visit st (Rule (Head_Literal (Literal sg (SymbolicAtom (Function name args ext)))) [])
           = Inr (Rule (Head_Literal (Literal sg (SymbolicAtom (Function (strip_primes name)
                (args @ [BinaryOperation Plus (Symbol (Clingo (parameter st)))
                           (Symbol (PyInt (get_shift name)))]) ext)))) b', st'))"
    using visit_rule_signed_accepted [where sg = sg and name = name and st = st and pt = pt
        and pn = pn and pargs = pargs and args = args and ext = ext] by blast
  have n3: "0 < get_shift name \<longrightarrow>
      (\<exists>st'. visit_head
           (st\<lparr>head := True, max_shift := 0,
               constraint := is_constraint
                 (Head_Literal (Literal NoSign (SymbolicAtom (Function name args ext)))),
               disjunction := is_disjunction
                 (Head_Literal (Literal NoSign (SymbolicAtom (Function name args ext))))\<rparr>)
           (Head_Literal (Literal NoSign (SymbolicAtom (Function name args ext)))) =
         Inr (Head_Literal (Literal NoSign (SymbolicAtom
                (Function (future_prefix @ strip_primes name)
                   (args @ [Symbol (PyInt (get_shift name)),
                            BinaryOperation Plus (Symbol (Clingo (parameter st)))
                              (Symbol (PyInt (get_shift name)))]) ext))), st'))"
    using visit_head_unsigned_future [where name = name and st = st and args = args
        and ext = ext] by blast
  have n4: "visit_head st h = Inr (h1, st1) \<longrightarrow>
        head st1 = head st \<and> constraint st1 = constraint st"
    using visit_head_context [where st = st and h = h and h' = h1 and st' = st1]
    by (simp add: same_context_def)
  have n5: "visit_body_literal st bl = Inr (bl1, st1) \<longrightarrow>
        head st1 = head st \<and> constraint st1 = constraint st"
    using visit_body_literal_context [where st = st and b = bl and b' = bl1 and st' = st1]
    by (simp add: same_context_def)
  have n6: "visit_ConditionalLiteral st c = Inr (c1, st1) \<longrightarrow>
        head st1 = head st \<and> constraint st1 = constraint st"
    using visit_ConditionalLiteral_context [where st = st and c = c and c' = c1 and st' = st1]
    by (simp add: same_context_def)
  have n7: "i \<in> set inputs \<and> parse i = Inr ss \<and> Rule h b \<in> set ss \<and> \<not> is_constraint h \<and>
       SymbolicAtom (Function name args ext) \<in> set (concat (map body_atoms b)) \<and>
       0 < get_shift name \<longrightarrow>
      (\<exists>e. transform parse inputs = Inl e)"
  proof
    assume p: "i \<in> set inputs \<and> parse i = Inr ss \<and> Rule h b \<in> set ss \<and> \<not> is_constraint h \<and>
       SymbolicAtom (Function name args ext) \<in> set (concat (map body_atoms b)) \<and>
       0 < get_shift name"
    then have "\<forall>st. \<exists>e. visit st (Rule h b) = Inl e"
      using visit_rule_body_atom_future_error [where h = h and name = name and args = args
          and ext = ext and b = b] by blast
    with p show "\<exists>e. transform parse inputs = Inl e"
      using transform_fails [where i = i and inputs = inputs and parse = parse and ss = ss
          and s = "Rule h b"] by blast
  qed
  have n8: "i \<in> set inputs \<and> parse i = Inr ss \<and> Rule h b \<in> set ss \<and>
       Literal NoSign (SymbolicAtom (Function name args ext)) \<in> set (head_literals h) \<and>
       get_shift name < 0 \<longrightarrow>
      (\<exists>e. transform parse inputs = Inl e)"
  proof
    assume p: "i \<in> set inputs \<and> parse i = Inr ss \<and> Rule h b \<in> set ss \<and>
       Literal NoSign (SymbolicAtom (Function name args ext)) \<in> set (head_literals h) \<and>
       get_shift name < 0"
    then have "\<forall>st. \<exists>e. visit st (Rule h b) = Inl e"
      using visit_rule_head_past_error [where name = name and args = args and ext = ext
          and h = h and b = b] by blast
    with p show "\<exists>e. transform parse inputs = Inl e"
      using transform_fails [where i = i and inputs = inputs and parse = parse and ss = ss
          and s = "Rule h b"] by blast
  qed
  show ?thesis
    by (intro conjI c1 c2 c3 c4 c5 c6 c7 c8 c9 n1 n2 n3 n4 n5 n6 n7 n8)
qed

text \<open>
  The four cases at concrete atoms, and the same on whole programs: \<open>a :- b'.\<close> and
  \<open>'a :- b.\<close> are refused, \<open>:- b'.\<close> and \<open>a'' :- b.\<close> are transformed.
\<close>

theorem shift_policy_witness:
  "visit_SymbolicAtom initial_state (Function (''b'' @ [prime]) [] False) = Inl FutureError
   \<and> visit_SymbolicAtom (initial_state\<lparr>constraint := True\<rparr>) (Function (''b'' @ [prime]) [] False)
       = Inr (SymbolicAtom (Function ''b''
                [BinaryOperation Plus (Symbol (Clingo (Sym_Function ''__t'' [])))
                   (Symbol (PyInt 1))] False),
              initial_state\<lparr>constraint := True, max_shift := 1\<rparr>)
   \<and> visit_SymbolicAtom (initial_state\<lparr>head := True\<rparr>) (Function (prime # ''a'') [] False)
       = Inl PastError
   \<and> (\<exists>st'. visit_SymbolicAtom (initial_state\<lparr>head := True\<rparr>)
               (Function (''a'' @ [prime, prime]) [] False)
       = Inr (SymbolicAtom (Function ''__future_a''
                [Symbol (PyInt 2),
                 BinaryOperation Plus (Symbol (Clingo (Sym_Function ''__t'' [])))
                   (Symbol (PyInt 2))] False), st'))
   \<and> transform (parse_const body_future_program) [''''] = Inl FutureError
   \<and> (\<exists>out. transform (parse_const constraint_future_program) [''''] = Inr (out, [], []))
   \<and> transform (parse_const head_past_program) [''''] = Inl PastError
   \<and> (\<exists>out. transform (parse_const head_future_program) [''''] =
              Inr (out, [(''__future_a'', 2)], []))
   \<and> (\<exists>b' st'. visit (initial_state\<lparr>part := Some ''static''\<rparr>)
          (Rule (Head_Literal (Literal Negation (SymbolicAtom (Function (prime # ''p'') [] False))))
             [])
        = Inr (Rule (Head_Literal (Literal Negation (SymbolicAtom (Function ''p''
                 [BinaryOperation Plus (Symbol (Clingo (Sym_Function ''__t'' [])))
                    (Symbol (PyInt (- 1)))] False)))) b', st'))"
proof -
  have s1: "get_shift [CHR ''b'', prime] = 1" "strip_primes [CHR ''b'', prime] = ''b''"
    and s2: "get_shift [prime, CHR ''a''] = - 1"
    and s3: "get_shift [CHR ''a'', prime, prime] = 2"
            "strip_primes [CHR ''a'', prime, prime] = ''a''"
    by (simp_all add: get_shift_def strip_primes_def prime_def)
  have a: "visit_SymbolicAtom initial_state (Function (''b'' @ [prime]) [] False)
             = Inl FutureError"
    using shift_policy [where st = initial_state and name = "[CHR ''b'', prime]"
                          and args = "[]" and ext = False, THEN conjunct1]
    by (simp add: s1 initial_state_def)
  have b: "visit_SymbolicAtom (initial_state\<lparr>constraint := True\<rparr>)
             (Function (''b'' @ [prime]) [] False)
       = Inr (SymbolicAtom (Function ''b''
                [BinaryOperation Plus (Symbol (Clingo (Sym_Function ''__t'' [])))
                   (Symbol (PyInt 1))] False),
              initial_state\<lparr>constraint := True, max_shift := 1\<rparr>)"
    using shift_policy [where st = "initial_state\<lparr>constraint := True\<rparr>"
                          and name = "[CHR ''b'', prime]" and args = "[]" and ext = False,
                        THEN conjunct2, THEN conjunct1]
    by (simp add: s1 initial_state_def time_parameter_name_def)
  have c: "visit_SymbolicAtom (initial_state\<lparr>head := True\<rparr>) (Function (prime # ''a'') [] False)
       = Inl PastError"
    using shift_policy [where st = "initial_state\<lparr>head := True\<rparr>"
                          and name = "[prime, CHR ''a'']" and args = "[]" and ext = False,
                        THEN conjunct2, THEN conjunct2, THEN conjunct1]
    by (simp add: s2 initial_state_def)
  have d: "\<exists>st'. visit_SymbolicAtom (initial_state\<lparr>head := True\<rparr>)
               (Function (''a'' @ [prime, prime]) [] False)
       = Inr (SymbolicAtom (Function ''__future_a''
                [Symbol (PyInt 2),
                 BinaryOperation Plus (Symbol (Clingo (Sym_Function ''__t'' [])))
                   (Symbol (PyInt 2))] False), st')"
    using shift_policy [where st = "initial_state\<lparr>head := True\<rparr>"
                          and name = "[CHR ''a'', prime, prime]" and args = "[]" and ext = False,
                        THEN conjunct2, THEN conjunct2, THEN conjunct2, THEN conjunct1]
    by (simp add: s3 initial_state_def time_parameter_name_def future_prefix_def)
  have e: "transform (parse_const body_future_program) [''''] = Inl FutureError"
    by (simp add: eval_defs body_future_program_def)
  have f: "\<exists>out. transform (parse_const constraint_future_program) [''''] = Inr (out, [], [])"
    by (simp add: eval_defs constraint_future_program_def)
  have g: "transform (parse_const head_past_program) [''''] = Inl PastError"
    by (simp add: eval_defs head_past_program_def)
  have h: "\<exists>out. transform (parse_const head_future_program) [''''] =
              Inr (out, [(''__future_a'', 2)], [])"
    by (simp add: eval_defs head_future_program_def)
  have s4: "get_shift [prime, CHR ''p''] = - 1" "strip_primes [prime, CHR ''p''] = ''p''"
    by (simp_all add: get_shift_def strip_primes_def prime_def)
  have k: "\<exists>b' st'. visit (initial_state\<lparr>part := Some ''static''\<rparr>)
          (Rule (Head_Literal (Literal Negation (SymbolicAtom (Function (prime # ''p'') [] False))))
             [])
        = Inr (Rule (Head_Literal (Literal Negation (SymbolicAtom (Function ''p''
                 [BinaryOperation Plus (Symbol (Clingo (Sym_Function ''__t'' [])))
                    (Symbol (PyInt (- 1)))] False)))) b', st')"
    using shift_policy [where st = "initial_state\<lparr>part := Some ''static''\<rparr>"
                          and name = "[prime, CHR ''p'']" and args = "[]" and ext = False
                          and sg = Negation and pt = "''static''"
                          and pn = "''__t''" and pargs = "[]",
                        THEN conjunct2, THEN conjunct2, THEN conjunct2, THEN conjunct2,
                        THEN conjunct2, THEN conjunct2, THEN conjunct2, THEN conjunct2,
                        THEN conjunct2, THEN conjunct2, THEN conjunct1]
    by (simp add: s4 initial_state_def time_parameter_name_def)
  show ?thesis
    by (intro conjI a b c d e f g h k)
qed

text \<open>
  The claim as stated fails for \<open>not 'p :- q.\<close>: the atom of the head has a negative
  shift, and \<open>transform\<close> succeeds; the atom is rewritten to \<open>p(__t + -1)\<close>.
\<close>

theorem negated_head_counterexample:
  "transform (parse_const negated_head_program) [''''] =
     Inr ([Program ''static'' [''__t''],
           Rule (Head_Literal (Literal Negation (SymbolicAtom
                   (Function ''p''
                      [BinaryOperation Plus (Symbol (Clingo (Sym_Function ''__t'' [])))
                         (Symbol (PyInt (- 1)))] False))))
             [Body_Literal (Literal NoSign (SymbolicAtom
                (Function ''q'' [Symbol (Clingo (Sym_Function ''__t'' []))] False)))]],
          [], [])"
  by (simp add: eval_defs negated_head_program_def)

section \<open>Properties of transform\<close>

lemma future_loop_eq:
  "future_loop fp acc sigs =
     (acc @ concat (map (\<lambda>(k, d). future_rules k d) fp),
      sigs @ map (\<lambda>((name, arity, shift), d). (future_prefix @ name, arity + 2)) fp)"
proof (induction fp arbitrary: acc sigs)
  case Nil
  show ?case by simp
next
  case (Cons x fp)
  obtain name arity shift d where x: "x = ((name, arity, shift), d)"
    by (metis prod.exhaust)
  show ?case
    unfolding x by (simp add: Cons.IH)
qed

lemma future_rules_length: "length (future_rules k d) = (if d then 3 else 1)"
  by (cases k) (simp add: future_rules_def Let_def)

lemma transform_eq:
  assumes "rewrite_inputs parse initial_state inputs [] = Inr (r0, st)"
  shows "transform parse inputs =
     Inr (if future_predicates st = [] then r0
          else r0 @ Program ''static'' [time_parameter_name] #
               concat (map (\<lambda>(k, d). future_rules k d) (future_predicates st)),
          map (\<lambda>((name, arity, shift), d). (future_prefix @ name, arity + 2))
            (future_predicates st),
          [])"
  using assms by (simp add: transform_def bnd_def future_loop_eq)

text \<open>
  C1, as the code has it. When rewriting ends with the registry of \<open>st\<close>, \<open>transform\<close>
  returns the rewritten statements, one \<open>#program static(__t).\<close>, and for each entry of
  the registry in turn its auxiliary statements; each key has one entry in the
  registry. An entry flagged disjunctive has
  exactly three of them (the external declaration, one linking rule, the restoration
  rule), any other entry exactly one (the restoration rule).
\<close>

theorem synthesized_per_key:
  assumes "rewrite_inputs parse initial_state inputs [] = Inr (r0, st)"
    and "(k, d) \<in> set (future_predicates st)"
  shows "transform parse inputs =
           Inr (r0 @ Program ''static'' [time_parameter_name] #
                  concat (map (\<lambda>(k, d). future_rules k d) (future_predicates st)),
                map (\<lambda>((name, arity, shift), d). (future_prefix @ name, arity + 2))
                  (future_predicates st),
                [])
         \<and> distinct (map fst (future_predicates st))
         \<and> length (future_rules k d) = (if d then 3 else 1)
         \<and> (d \<longrightarrow> (\<exists>p f q g. future_rules k d =
               [External p [Body_Literal f],
                Rule (Head_Literal f) [Body_Literal (Literal NoSign p)],
                Rule (Head_Literal q) [Body_Literal g]]))
         \<and> (\<not> d \<longrightarrow> (\<exists>q g. future_rules k d = [Rule (Head_Literal q) [Body_Literal g]]))"
proof -
  have ne: "future_predicates st \<noteq> []" using assms(2) by auto
  have t: "transform parse inputs =
           Inr (r0 @ Program ''static'' [time_parameter_name] #
                  concat (map (\<lambda>(k, d). future_rules k d) (future_predicates st)),
                map (\<lambda>((name, arity, shift), d). (future_prefix @ name, arity + 2))
                  (future_predicates st),
                [])"
    using transform_eq [OF assms(1)] ne by simp
  have u: "distinct (map fst (future_predicates st))"
    using rewrite_inputs_keys [OF assms(1)] by (simp add: initial_state_def)
  have l: "length (future_rules k d) = (if d then 3 else 1)"
    by (rule future_rules_length)
  have a: "d \<longrightarrow> (\<exists>p f q g. future_rules k d =
               [External p [Body_Literal f],
                Rule (Head_Literal f) [Body_Literal (Literal NoSign p)],
                Rule (Head_Literal q) [Body_Literal g]])"
    by (cases k) (simp add: future_rules_def Let_def)
  have b: "\<not> d \<longrightarrow> (\<exists>q g. future_rules k d = [Rule (Head_Literal q) [Body_Literal g]])"
    by (cases k) (simp add: future_rules_def Let_def)
  show ?thesis
    by (intro conjI t u l a b)
qed

theorem synthesized_per_key_witness:
  "(\<exists>r0 st. rewrite_inputs (parse_const disjunctive_program) initial_state [''''] [] = Inr (r0, st)
      \<and> ((''a'', 1, 1), True) \<in> set (future_predicates st)
      \<and> transform (parse_const disjunctive_program) [''''] =
           Inr (r0 @ Program ''static'' [time_parameter_name] #
                  concat (map (\<lambda>(k, d). future_rules k d) (future_predicates st)),
                map (\<lambda>((name, arity, shift), d). (future_prefix @ name, arity + 2))
                  (future_predicates st),
                []))
   \<and> length (future_rules (''a'', 1, 1) True) = 3"
proof -
  have "\<exists>r0 st. rewrite_inputs (parse_const disjunctive_program) initial_state [''''] []
                  = Inr (r0, st) \<and> future_predicates st = [((''a'', 1, 1), True)]"
    by (simp add: eval_defs disjunctive_program_def)
  then obtain r0 st where
    r: "rewrite_inputs (parse_const disjunctive_program) initial_state [''''] [] = Inr (r0, st)"
    and f: "future_predicates st = [((''a'', 1, 1), True)]"
    by blast
  have m: "((''a'', 1, 1), True) \<in> set (future_predicates st)"
    by (simp add: f)
  from synthesized_per_key [OF r m] r m show ?thesis
    by auto
qed

text \<open>
  The claim as stated fails for \<open>a'(X) ; b :- c(X).\<close>: the key \<open>(a, 1, 1)\<close> is registered
  with the flag true, and \<open>transform\<close> adds the \<open>#program\<close> statement and three statements
  for the key, not four.
\<close>

theorem four_statements_counterexample:
  "(case rewrite_inputs (parse_const disjunctive_program) initial_state [''''] [] of
      Inl e \<Rightarrow> False
    | Inr (r0, st) \<Rightarrow>
        future_predicates st = [((''a'', 1, 1), True)] \<and>
        (case transform (parse_const disjunctive_program) [''''] of
           Inl e \<Rightarrow> False
         | Inr (out, sigs, rg) \<Rightarrow> length out = length r0 + 1 + 3))
   \<and> length (future_rules (''a'', 1, 1) True) = 3"
  by (simp add: eval_defs disjunctive_program_def)

text \<open>
  C10. When rewriting ends with an empty registry, \<open>transform\<close> returns exactly the
  rewritten statements and no future signature; and whatever the input, the third
  component of a result of \<open>transform\<close> is the empty list.
\<close>

theorem transform_without_future:
  "(rewrite_inputs parse initial_state inputs [] = Inr (r0, st) \<longrightarrow>
      future_predicates st = [] \<longrightarrow> transform parse inputs = Inr (r0, [], []))
   \<and> (transform parse inputs = Inr (out, sigs, rg) \<longrightarrow> rg = [])"
  by (auto simp: transform_def bnd_def future_loop_eq split: sum.splits prod.splits if_splits)

theorem transform_without_future_witness:
  "(\<exists>r0 st. rewrite_inputs (parse_const plain_program) initial_state [''''] [] = Inr (r0, st)
      \<and> future_predicates st = []
      \<and> transform (parse_const plain_program) [''''] = Inr (r0, [], []))
   \<and> (\<exists>out sigs. transform (parse_const disjunctive_program) [''''] = Inr (out, sigs, []))"
proof -
  have "\<exists>r0 st. rewrite_inputs (parse_const plain_program) initial_state [''''] []
                  = Inr (r0, st) \<and> future_predicates st = []"
    by (simp add: eval_defs plain_program_def)
  then obtain r0 st where
    r: "rewrite_inputs (parse_const plain_program) initial_state [''''] [] = Inr (r0, st)"
    and f: "future_predicates st = []"
    by blast
  have a: "transform (parse_const plain_program) [''''] = Inr (r0, [], [])"
    using transform_without_future [of "parse_const plain_program" "['''']" r0 st] r f
    by blast
  have "\<exists>out sigs rg. transform (parse_const disjunctive_program) [''''] = Inr (out, sigs, rg)"
    by (simp add: eval_defs disjunctive_program_def)
  then obtain out sigs rg where
    t: "transform (parse_const disjunctive_program) [''''] = Inr (out, sigs, rg)"
    by blast
  have "rg = []"
    using transform_without_future [of "parse_const disjunctive_program" "['''']" _ _ out sigs rg] t
    by blast
  with t r f a show ?thesis by blast
qed

section \<open>Properties of the incremental loop\<close>

subsection \<open>The loops that collect parts and assumptions\<close>

lemma rng_loop_eq:
  "rng_loop k root_name part_name rng parts =
     parts @ map (\<lambda>i. (part_name, [k - i, k]))
       (filter (\<lambda>i. (k - i \<ge> 0 \<and> root_name = ''static'') \<or>
                     (k - i > 0 \<and> root_name = ''dynamic'') \<or>
                     (k - i = 0 \<and> root_name = ''initial'')) rng)"
  by (induction rng arbitrary: parts) simp_all

lemma parts_loop_eq:
  "parts_loop k program_parts parts =
     parts @ concat (map (\<lambda>(root_name, part_name, rng).
       map (\<lambda>i. (part_name, [k - i, k]))
         (filter (\<lambda>i. (k - i \<ge> 0 \<and> root_name = ''static'') \<or>
                       (k - i > 0 \<and> root_name = ''dynamic'') \<or>
                       (k - i = 0 \<and> root_name = ''initial'')) rng)) program_parts)"
proof (induction program_parts arbitrary: parts)
  case Nil
  show ?case by simp
next
  case (Cons d program_parts)
  obtain r p g where d: "d = (r, p, g)" by (metis prod.exhaust)
  show ?case unfolding d by (simp add: Cons.IH rng_loop_eq)
qed

lemma atoms_loop_eq:
  "atoms_loop k atoms acc = Inr as \<Longrightarrow>
     as = acc @ map (\<lambda>a. - literal a)
            (filter (\<lambda>a. case last_number a of Inr t \<Rightarrow> t > k | Inl e \<Rightarrow> False) atoms)"
proof (induction atoms arbitrary: acc)
  case Nil
  then show ?case by simp
next
  case (Cons a atoms)
  show ?case
  proof (cases "last_number a")
    case (Inl e)
    then show ?thesis using Cons.prems by (simp add: bnd_def)
  next
    case (Inr t)
    then have "atoms_loop k atoms (if t > k then acc @ [- literal a] else acc) = Inr as"
      using Cons.prems by (simp add: bnd_def)
    from Cons.IH [OF this] Inr show ?thesis by simp
  qed
qed

lemma sigs_loop_eq:
  "sigs_loop k atoms future_sigs acc = Inr as \<Longrightarrow>
     as = acc @ map (\<lambda>a. - literal a)
            (concat (map (\<lambda>(name, arity).
               filter (\<lambda>a. case last_number a of Inr t \<Rightarrow> t > k | Inl e \<Rightarrow> False)
                 (by_signature atoms name arity)) future_sigs))"
proof (induction future_sigs arbitrary: acc)
  case Nil
  then show ?case by simp
next
  case (Cons sg future_sigs)
  obtain name arity where sg: "sg = (name, arity)" by (metis prod.exhaust)
  from Cons.prems obtain acc' where
    a: "atoms_loop k (by_signature atoms name arity) acc = Inr acc'" and
    b: "sigs_loop k atoms future_sigs acc' = Inr as"
    unfolding sg by (auto simp: bnd_def split: sum.splits)
  show ?case
    unfolding sg using atoms_loop_eq [OF a] Cons.IH [OF b] by simp
qed

lemma atoms_loop_succeeds:
  assumes "\<forall>a \<in> set atoms. \<exists>t. last_number a = Inr t"
  shows "\<exists>as. atoms_loop k atoms acc = Inr as"
  using assms
proof (induction atoms arbitrary: acc)
  case Nil
  show ?case by simp
next
  case (Cons a atoms)
  then obtain t where t: "last_number a = Inr t" by auto
  have "\<forall>a \<in> set atoms. \<exists>t. last_number a = Inr t" using Cons.prems by simp
  from Cons.IH [OF this] show ?case by (simp add: t bnd_def)
qed

lemma sigs_loop_succeeds:
  assumes "\<forall>a \<in> set atoms. \<forall>(name, arity) \<in> set future_sigs.
             has_signature name arity (symbol a) \<longrightarrow> (\<exists>t. last_number a = Inr t)"
  shows "\<exists>as. sigs_loop k atoms future_sigs acc = Inr as"
  using assms
proof (induction future_sigs arbitrary: acc)
  case Nil
  show ?case by simp
next
  case (Cons sg future_sigs)
  obtain name arity where sg: "sg = (name, arity)" by (metis prod.exhaust)
  have "\<forall>a \<in> set (by_signature atoms name arity). \<exists>t. last_number a = Inr t"
    using Cons.prems unfolding sg by (auto simp: by_signature_def)
  from atoms_loop_succeeds [OF this] obtain acc' where
    a: "atoms_loop k (by_signature atoms name arity) acc = Inr acc'" by blast
  have "\<forall>a \<in> set atoms. \<forall>(name, arity) \<in> set future_sigs.
             has_signature name arity (symbol a) \<longrightarrow> (\<exists>t. last_number a = Inr t)"
    using Cons.prems by auto
  from Cons.IH [OF this] obtain as where "sigs_loop k atoms future_sigs acc' = Inr as"
    by blast
  then show ?case unfolding sg by (simp add: a bnd_def)
qed

lemma has_signature_unique:
  "has_signature n1 a1 s \<Longrightarrow> has_signature n2 a2 s \<Longrightarrow> n1 = n2 \<and> a1 = a2"
  by (cases s) auto

lemma selected_distinct:
  assumes "distinct future_sigs" "distinct atoms"
  shows "distinct (concat (map (\<lambda>(name, arity).
           filter P (by_signature atoms name arity)) future_sigs))"
  using assms(1)
proof (induction future_sigs)
  case Nil
  show ?case by simp
next
  case (Cons sg future_sigs)
  obtain name arity where sg: "sg = (name, arity)" by (metis prod.exhaust)
  have d1: "distinct (filter P (by_signature atoms name arity))"
    using assms(2) by (simp add: by_signature_def)
  have d2: "distinct (concat (map (\<lambda>(name, arity).
           filter P (by_signature atoms name arity)) future_sigs))"
    using Cons by simp
  have disj: "\<And>a n r. a \<in> set (by_signature atoms name arity) \<Longrightarrow>
      (n, r) \<in> set future_sigs \<Longrightarrow> a \<notin> set (by_signature atoms n r)"
  proof
    fix a n r
    assume a: "a \<in> set (by_signature atoms name arity)" and m: "(n, r) \<in> set future_sigs"
      and b: "a \<in> set (by_signature atoms n r)"
    have "n = name \<and> r = arity"
      using a b has_signature_unique [of n r "symbol a" name arity]
      by (auto simp: by_signature_def)
    then show False using Cons.prems m unfolding sg by auto
  qed
  show ?case
    unfolding sg using d1 d2 disj by (auto simp: by_signature_def)
qed

lemma selected_set:
  "set (concat (map (\<lambda>(name, arity).
           filter P (by_signature atoms name arity)) future_sigs)) =
   {a \<in> set atoms.
      (\<exists>(name, arity) \<in> set future_sigs. has_signature name arity (symbol a)) \<and> P a}"
  by (auto simp: by_signature_def)

subsection \<open>The calls of a run\<close>

lemma body_step: "step st \<le> step (body prg fs pp st)"
  by (simp add: body_def Let_def split: sum.splits)

lemma body_prefix: "prefix (calls st) (calls (body prg fs pp st))"
  by (simp add: body_def Let_def split: sum.splits)

lemma body_calls:
  assumes "(k, c) \<in> set (calls (body prg fs pp st))"
  shows "(k, c) \<in> set (calls st) \<or>
         (k = step st \<and>
           (c = Ground (parts_loop k pp []) \<or>
            (c = Cleanup \<and> k > 0) \<or>
            (c = Release_external (final_marker (k - 1)) \<and> k > 0) \<or>
            c = Assign_external (final_marker k) True \<or>
            (\<exists>as. c = Solve as \<and> sigs_loop k (symbolic_atoms prg k) fs [] = Inr as)))"
  using assms by (auto simp: body_def Let_def split: sum.splits if_splits)

lemma imain_loop_calls:
  assumes "(k, c) \<in> set (calls (imain_loop n prg fs pp imin imax istop st))"
  shows "(k, c) \<in> set (calls st) \<or>
         (step st \<le> k \<and>
           (c = Ground (parts_loop k pp []) \<or>
            (c = Cleanup \<and> k > 0) \<or>
            (c = Release_external (final_marker (k - 1)) \<and> k > 0) \<or>
            c = Assign_external (final_marker k) True \<or>
            (\<exists>as. c = Solve as \<and> sigs_loop k (symbolic_atoms prg k) fs [] = Inr as)))"
  using assms
proof (induction n arbitrary: st)
  case 0
  then show ?case by simp
next
  case (Suc n)
  show ?case
  proof (cases "raised st = None \<and> loop_cond imin imax istop st = Inr True")
    case True
    then have "(k, c) \<in> set (calls (imain_loop n prg fs pp imin imax istop (body prg fs pp st)))"
      using Suc.prems by simp
    from Suc.IH [OF this] body_calls [of k c prg fs pp st] body_step [of st prg fs pp]
    show ?thesis by auto
  next
    case False
    then have "(k, c) \<in> set (calls st)"
      using Suc.prems by (auto split: sum.splits if_splits)
    then show ?thesis by simp
  qed
qed

lemma imain_loop_prefix:
  "prefix (calls st) (calls (imain_loop n prg fs pp imin imax istop st))"
proof (induction n arbitrary: st)
  case 0
  show ?case by simp
next
  case (Suc n)
  show ?case
  proof (cases "raised st = None \<and> loop_cond imin imax istop st = Inr True")
    case True
    have "prefix (calls st) (calls (body prg fs pp st))" by (rule body_prefix)
    also have "prefix \<dots> (calls (imain_loop n prg fs pp imin imax istop (body prg fs pp st)))"
      by (rule Suc.IH)
    finally show ?thesis using True by simp
  next
    case False
    then show ?thesis by (auto split: sum.splits)
  qed
qed

lemma body_solve_ground:
  assumes "\<forall>k as. (k, Solve as) \<in> set (calls st) \<longrightarrow>
             (k, Ground (parts_loop k pp [])) \<in> set (calls st)"
  shows "\<forall>k as. (k, Solve as) \<in> set (calls (body prg fs pp st)) \<longrightarrow>
             (k, Ground (parts_loop k pp [])) \<in> set (calls (body prg fs pp st))"
  using assms by (auto simp: body_def Let_def split: sum.splits)

lemma imain_loop_solve_ground:
  assumes "\<forall>k as. (k, Solve as) \<in> set (calls st) \<longrightarrow>
             (k, Ground (parts_loop k pp [])) \<in> set (calls st)"
  shows "\<forall>k as. (k, Solve as) \<in> set (calls (imain_loop n prg fs pp imin imax istop st)) \<longrightarrow>
             (k, Ground (parts_loop k pp [])) \<in>
               set (calls (imain_loop n prg fs pp imin imax istop st))"
  using assms
proof (induction n arbitrary: st)
  case 0
  then show ?case by simp
next
  case (Suc n)
  show ?case
  proof (cases "raised st = None \<and> loop_cond imin imax istop st = Inr True")
    case True
    then show ?thesis
      using Suc.IH [OF body_solve_ground [OF Suc.prems]] by simp
  next
    case False
    then show ?thesis
      using Suc.prems by (auto split: sum.splits)
  qed
qed

lemma body_solve_markers:
  assumes "\<forall>k as. (k, Solve as) \<in> set (calls st) \<longrightarrow>
             (k, Assign_external (final_marker k) True) \<in> set (calls st) \<and>
             (0 < k \<longrightarrow> (k, Release_external (final_marker (k - 1))) \<in> set (calls st))"
  shows "\<forall>k as. (k, Solve as) \<in> set (calls (body prg fs pp st)) \<longrightarrow>
             (k, Assign_external (final_marker k) True) \<in> set (calls (body prg fs pp st)) \<and>
             (0 < k \<longrightarrow> (k, Release_external (final_marker (k - 1)))
                \<in> set (calls (body prg fs pp st)))"
  using assms by (auto simp: body_def Let_def split: sum.splits)

lemma imain_loop_solve_markers:
  assumes "\<forall>k as. (k, Solve as) \<in> set (calls st) \<longrightarrow>
             (k, Assign_external (final_marker k) True) \<in> set (calls st) \<and>
             (0 < k \<longrightarrow> (k, Release_external (final_marker (k - 1))) \<in> set (calls st))"
  shows "\<forall>k as. (k, Solve as) \<in> set (calls (imain_loop n prg fs pp imin imax istop st)) \<longrightarrow>
             (k, Assign_external (final_marker k) True) \<in>
                set (calls (imain_loop n prg fs pp imin imax istop st)) \<and>
             (0 < k \<longrightarrow> (k, Release_external (final_marker (k - 1))) \<in>
                set (calls (imain_loop n prg fs pp imin imax istop st)))"
  using assms
proof (induction n arbitrary: st)
  case 0
  then show ?case by simp
next
  case (Suc n)
  show ?case
  proof (cases "raised st = None \<and> loop_cond imin imax istop st = Inr True")
    case True
    then show ?thesis
      using Suc.IH [OF body_solve_markers [OF Suc.prems]] by simp
  next
    case False
    then show ?thesis
      using Suc.prems by (auto split: sum.splits)
  qed
qed

subsection \<open>The marker discipline\<close>

lemma final_marker_inj [simp]: "(final_marker j = final_marker k) = (j = k)"
  by (simp add: final_marker_def)

lemma markers_ok_append:
  "markers_ok S (xs @ ys) = (markers_ok S xs \<and> markers_ok (foldl apply_call S xs) ys)"
  by (induction xs arbitrary: S) auto

lemma apply_call_small:
  assumes "markers_ok S (e # cs)" "S = {} \<or> (\<exists>j. S = {final_marker j})"
  shows "apply_call S e = {} \<or> (\<exists>j. apply_call S e = {final_marker j})"
proof (cases e)
  case (Pair k c)
  show ?thesis using assms unfolding Pair by (cases c) auto
qed

lemma markers_ok_prefix_small:
  assumes "markers_ok S cs" "S = {} \<or> (\<exists>j. S = {final_marker j})" "prefix p cs"
  shows "foldl apply_call S p = {} \<or> (\<exists>j. foldl apply_call S p = {final_marker j})"
  using assms
proof (induction cs arbitrary: S p)
  case Nil
  then show ?case by simp
next
  case (Cons e cs)
  show ?case
  proof (cases p)
    case Nil
    then show ?thesis using Cons.prems by simp
  next
    case (Cons e' p')
    then have e: "e' = e" and p': "prefix p' cs" using Cons.prems(3) by auto
    have ok: "markers_ok (apply_call S e) cs" using Cons.prems(1) by simp
    have small: "apply_call S e = {} \<or> (\<exists>j. apply_call S e = {final_marker j})"
      using apply_call_small [OF Cons.prems(1) Cons.prems(2)] .
    from Cons.IH [OF ok small p'] show ?thesis unfolding Cons e by simp
  qed
qed

lemma markers_ok_at:
  assumes "markers_ok S cs" "prefix (p @ [e]) cs"
  shows "call_ok (foldl apply_call S p) e"
  using assms
proof (induction cs arbitrary: S p)
  case Nil
  then show ?case by simp
next
  case (Cons c cs)
  show ?case
  proof (cases p)
    case Nil
    then have "c = e" using Cons.prems(2) by simp
    then show ?thesis using Cons.prems(1) Nil by simp
  next
    case (Cons c' p')
    then have c: "c' = c" and p': "prefix (p' @ [e]) cs"
      using Cons.prems(2) by auto
    have ok: "markers_ok (apply_call S c) cs" using Cons.prems(1) by simp
    from Cons.IH [OF ok p'] show ?thesis unfolding Cons c by simp
  qed
qed

lemma markers_ok_assign:
  assumes "markers_ok S cs" "prefix (p @ [(k, Assign_external m v)]) cs"
  shows "foldl apply_call S p = {} \<and> m = final_marker k \<and> v"
  using markers_ok_at [OF assms] by simp

lemma markers_ok_solve:
  assumes "markers_ok S cs" "prefix (p @ [(k, Solve as)]) cs"
  shows "foldl apply_call S p = {final_marker k}"
  using markers_ok_at [OF assms] by simp

lemma markers_ok_release:
  assumes "markers_ok S cs" "prefix (p @ [(k, Release_external m)]) cs"
  shows "0 < k \<and> m = final_marker (k - 1) \<and> foldl apply_call S p = {m}"
  using markers_ok_at [OF assms] by simp

lemma body_inv:
  assumes "loop_inv st" "raised st = None"
  shows "loop_inv (body prg fs pp st)"
proof -
  have s0: "0 \<le> step st" using assms by (simp add: loop_inv_def)
  have up: "[0..step st] = [0..step st - 1] @ [step st]"
    using s0 by (simp add: upto_rec2)
  show ?thesis
    using assms up
    by (auto simp: loop_inv_def body_def Let_def markers_ok_append asserted_def
             split: sum.splits)
qed

lemma imain_loop_inv:
  assumes "loop_inv st"
  shows "loop_inv (imain_loop n prg fs pp imin imax istop st)"
  using assms
proof (induction n arbitrary: st)
  case 0
  then show ?case by simp
next
  case (Suc n)
  show ?case
  proof (cases "raised st = None \<and> loop_cond imin imax istop st = Inr True")
    case True
    then show ?thesis using Suc.IH [OF body_inv [OF Suc.prems]] by simp
  next
    case False
    then show ?thesis
      using Suc.prems by (auto simp: loop_inv_def split: sum.splits)
  qed
qed

lemma imain_inv: "loop_inv (imain n prg fs pp imin imax istop)"
  unfolding imain_def
  by (rule imain_loop_inv) (simp add: loop_inv_def asserted_def)

subsection \<open>The claims about the loop\<close>

lemma imain_solves_at_zero:
  assumes "imax = None \<or> (\<exists>m. imax = Some m \<and> 0 < m)"
    and "\<forall>a \<in> set (symbolic_atoms prg 0). \<forall>(name, arity) \<in> set future_sigs.
             has_signature name arity (symbol a) \<longrightarrow> (\<exists>t. last_number a = Inr t)"
  shows "\<exists>as. (0, Solve as) \<in>
           set (calls (imain (Suc n) prg future_sigs program_parts imin imax istop))"
proof -
  let ?init = "\<lparr>step = 0, ret = None, calls = [], raised = None\<rparr>"
  from sigs_loop_succeeds [OF assms(2)] obtain as where
    as: "sigs_loop 0 (symbolic_atoms prg 0) future_sigs [] = Inr as" by blast
  have c: "loop_cond imin imax istop ?init = Inr True"
    using assms(1) by (auto simp: loop_cond_def)
  have b: "(0, Solve as) \<in> set (calls (body prg future_sigs program_parts ?init))"
    by (simp add: body_def Let_def as)
  have "imain (Suc n) prg future_sigs program_parts imin imax istop =
        imain_loop n prg future_sigs program_parts imin imax istop
          (body prg future_sigs program_parts ?init)"
    by (simp add: imain_def c)
  then show ?thesis
    using b imain_loop_prefix [of "body prg future_sigs program_parts ?init" n prg
             future_sigs program_parts imin imax istop]
    by (auto dest: set_mono_prefix)
qed

lemma imain_no_call:
  assumes "imax = Some m" "m \<le> 0"
  shows "calls (imain j prg future_sigs program_parts imin imax istop) = []"
  using assms by (cases j) (simp_all add: imain_def loop_cond_def)

text \<open>
  C3, as the code has it. When \<open>imax\<close> is \<open>None\<close> or positive, and reading the time
  argument of the atoms that match a future signature at step 0 does not raise, the loop
  runs its body at step 0 and calls \<open>solve\<close> there, whatever \<open>imin\<close> and \<open>istop\<close> are.
  When \<open>imax\<close> is 0 (or less), the loop makes no call at all, whatever the grounder, the
  signatures, the parts, \<open>imin\<close> and \<open>istop\<close> are and however far the loop is unrolled.
\<close>

theorem first_solve:
  "((imax = None \<or> (\<exists>m. imax = Some m \<and> 0 < m)) \<and>
    (\<forall>a \<in> set (symbolic_atoms prg 0). \<forall>(name, arity) \<in> set future_sigs.
        has_signature name arity (symbol a) \<longrightarrow> (\<exists>t. last_number a = Inr t)) \<longrightarrow>
      (\<exists>as. (0, Solve as) \<in>
         set (calls (imain (Suc n) prg future_sigs program_parts imin imax istop))))
   \<and> ((\<exists>m. imax = Some m \<and> m \<le> 0) \<longrightarrow>
        (\<forall>j. calls (imain j prg future_sigs program_parts imin imax istop) = []))"
proof (intro conjI impI allI)
  assume "(imax = None \<or> (\<exists>m. imax = Some m \<and> 0 < m)) \<and>
    (\<forall>a \<in> set (symbolic_atoms prg 0). \<forall>(name, arity) \<in> set future_sigs.
        has_signature name arity (symbol a) \<longrightarrow> (\<exists>t. last_number a = Inr t))"
  then show "\<exists>as. (0, Solve as) \<in>
         set (calls (imain (Suc n) prg future_sigs program_parts imin imax istop))"
    using imain_solves_at_zero [of imax prg future_sigs n program_parts imin istop] by blast
next
  fix j
  assume "\<exists>m. imax = Some m \<and> m \<le> 0"
  then show "calls (imain j prg future_sigs program_parts imin imax istop) = []"
    using imain_no_call [of imax _ j prg future_sigs program_parts imin istop] by blast
qed

theorem first_solve_witness:
  "(Some (1::int) = None \<or> (\<exists>m. Some (1::int) = Some m \<and> 0 < m))
   \<and> (\<exists>as. (0, Solve as) \<in>
         set (calls (imain (Suc 0) future_control [(''__future_p'', 2)] three_parts
                       0 (Some 1) ''SAT'')))
   \<and> (\<exists>m. Some (0::int) = Some m \<and> m \<le> 0)
   \<and> calls (imain 4 future_control [(''__future_p'', 2)] three_parts 3 (Some 0) ''UNSAT'') = []"
proof -
  have h1: "Some (1::int) = None \<or> (\<exists>m. Some (1::int) = Some m \<and> 0 < m)"
    by simp
  have h2: "\<forall>a \<in> set (symbolic_atoms future_control 0).
              \<forall>(name, arity) \<in> set [(''__future_p'', 2)].
                has_signature name arity (symbol a) \<longrightarrow> (\<exists>t. last_number a = Inr t)"
    by (simp add: future_control_def future_atoms_def last_number_def bnd_def)
  have a: "\<exists>as. (0, Solve as) \<in>
         set (calls (imain (Suc 0) future_control [(''__future_p'', 2)] three_parts
                       0 (Some 1) ''SAT''))"
    using first_solve [where imax = "Some 1" and prg = future_control
        and future_sigs = "[(''__future_p'', 2)]" and n = 0 and program_parts = three_parts
        and imin = 0 and istop = "''SAT''", THEN conjunct1] h1 h2
    by blast
  have h3: "\<exists>m. Some (0::int) = Some m \<and> m \<le> 0"
    by simp
  have b: "calls (imain 4 future_control [(''__future_p'', 2)] three_parts 3 (Some 0) ''UNSAT'')
             = []"
    using first_solve [where imax = "Some 0" and prg = future_control
        and future_sigs = "[(''__future_p'', 2)]" and program_parts = three_parts
        and imin = 3 and istop = "''UNSAT''", THEN conjunct2] h3
    by blast
  show ?thesis
    by (intro conjI h1 a h3 b)
qed

text \<open>
  The claim as stated fails for \<open>imax = 0\<close>: the loop condition is false at once and no
  call is made at all.
\<close>

theorem no_solve_counterexample:
  "calls (imain 3 quiet_control [] three_parts 0 (Some 0) ''SAT'') = []"
  by (simp add: loop_defs numeral_3_eq_3)

text \<open>
  C7. The parts grounded at step \<open>k\<close> are, descriptor by descriptor and offset by offset
  in the order of the lists, the pairs \<open>(name, [k - i, k])\<close> of those offsets \<open>i\<close> for
  which the root is static and \<open>k - i \<ge> 0\<close>, or dynamic and \<open>k - i > 0\<close>, or initial and
  \<open>k - i = 0\<close>; so a pair is grounded exactly when some descriptor and offset give it
  under that condition. Every step that reaches \<open>solve\<close> has grounded its parts before.
\<close>

theorem ground_parts_at_step:
  "((k, Ground parts) \<in>
       set (calls (imain n prg future_sigs program_parts imin imax istop)) \<longrightarrow>
     parts =
           concat (map (\<lambda>(root_name, part_name, rng).
             map (\<lambda>i. (part_name, [k - i, k]))
               (filter (\<lambda>i. (root_name = ''static'' \<and> k - i \<ge> 0) \<or>
                             (root_name = ''dynamic'' \<and> k - i > 0) \<or>
                             (root_name = ''initial'' \<and> k - i = 0)) rng)) program_parts)
         \<and> (\<forall>name a b. ((name, [a, b]) \<in> set parts) =
               (\<exists>root_name rng i. (root_name, name, rng) \<in> set program_parts \<and> i \<in> set rng \<and>
                  a = k - i \<and> b = k \<and>
                  ((root_name = ''static'' \<and> k - i \<ge> 0) \<or>
                   (root_name = ''dynamic'' \<and> k - i > 0) \<or>
                   (root_name = ''initial'' \<and> k - i = 0)))))
   \<and> ((k, Solve as) \<in>
       set (calls (imain n prg future_sigs program_parts imin imax istop)) \<longrightarrow>
      (\<exists>parts. (k, Ground parts) \<in>
         set (calls (imain n prg future_sigs program_parts imin imax istop))))"
proof (intro conjI impI)
  assume g: "(k, Ground parts) \<in>
       set (calls (imain n prg future_sigs program_parts imin imax istop))"
  have "parts = parts_loop k program_parts []"
    using imain_loop_calls [OF g [unfolded imain_def]] by simp
  then show eq: "parts =
           concat (map (\<lambda>(root_name, part_name, rng).
             map (\<lambda>i. (part_name, [k - i, k]))
               (filter (\<lambda>i. (root_name = ''static'' \<and> k - i \<ge> 0) \<or>
                             (root_name = ''dynamic'' \<and> k - i > 0) \<or>
                             (root_name = ''initial'' \<and> k - i = 0)) rng)) program_parts)"
    by (simp add: parts_loop_eq conj_commute)
  show "\<forall>name a b. ((name, [a, b]) \<in> set parts) =
               (\<exists>root_name rng i. (root_name, name, rng) \<in> set program_parts \<and> i \<in> set rng \<and>
                  a = k - i \<and> b = k \<and>
                  ((root_name = ''static'' \<and> k - i \<ge> 0) \<or>
                   (root_name = ''dynamic'' \<and> k - i > 0) \<or>
                   (root_name = ''initial'' \<and> k - i = 0)))"
    unfolding eq by (auto simp: image_iff) blast+
next
  assume s: "(k, Solve as) \<in>
       set (calls (imain n prg future_sigs program_parts imin imax istop))"
  have "\<forall>k as. (k, Solve as) \<in>
            set (calls (imain n prg future_sigs program_parts imin imax istop)) \<longrightarrow>
          (k, Ground (parts_loop k program_parts [])) \<in>
            set (calls (imain n prg future_sigs program_parts imin imax istop))"
    unfolding imain_def by (rule imain_loop_solve_ground) simp
  with s show "\<exists>parts. (k, Ground parts) \<in>
         set (calls (imain n prg future_sigs program_parts imin imax istop))"
    by blast
qed

theorem ground_parts_at_step_witness:
  "(1, Ground [(''static'', [1, 1]), (''static'', [0, 1]), (''dynamic'', [1, 1])])
     \<in> set (calls (imain 2 quiet_control [] three_parts 0 None ''SAT''))
   \<and> [(''static'', [1, 1]), (''static'', [0, 1]), (''dynamic'', [1, 1])] =
       concat (map (\<lambda>(root_name, part_name, rng).
             map (\<lambda>i. (part_name, [1 - i, 1]))
               (filter (\<lambda>i. (root_name = ''static'' \<and> 1 - i \<ge> 0) \<or>
                             (root_name = ''dynamic'' \<and> 1 - i > 0) \<or>
                             (root_name = ''initial'' \<and> 1 - i = 0)) rng)) three_parts)"
proof -
  have h: "(1, Ground [(''static'', [1, 1]), (''static'', [0, 1]), (''dynamic'', [1, 1])])
     \<in> set (calls (imain 2 quiet_control [] three_parts 0 None ''SAT''))"
    by (simp add: loop_defs numeral_2_eq_2)
  note g = ground_parts_at_step [where k = 1 and n = 2 and prg = quiet_control
      and parts = "[(''static'', [1, 1]), (''static'', [0, 1]), (''dynamic'', [1, 1])]"
      and future_sigs = "[]" and program_parts = three_parts and imin = 0 and imax = None
      and istop = "''SAT''", THEN conjunct1, rule_format, OF h, THEN conjunct1]
  from h g show ?thesis by (rule conjI)
qed

text \<open>
  C6, as the code has it. The assumptions passed to \<open>solve\<close> at step \<open>k\<close> are the negated
  literals of a list of atoms: signature by signature in the order of \<open>future_sigs\<close>, the
  atoms of that signature whose last argument is a number greater than \<open>k\<close>. As a set
  these are exactly the grounded atoms that match a future signature and lie beyond
  \<open>k\<close>; each of them stands in the list once for every occurrence of its signature in
  \<open>future_sigs\<close>, hence exactly once when no signature is repeated.
\<close>

theorem assumptions_at_step:
  assumes "(k, Solve as) \<in>
             set (calls (imain n prg future_sigs program_parts imin imax istop))"
  shows "as = map (\<lambda>a. - literal a)
                (concat (map (\<lambda>(name, arity).
                   filter (\<lambda>a. case last_number a of Inr t \<Rightarrow> t > k | Inl e \<Rightarrow> False)
                     (by_signature (symbolic_atoms prg k) name arity)) future_sigs))
         \<and> set (concat (map (\<lambda>(name, arity).
                   filter (\<lambda>a. case last_number a of Inr t \<Rightarrow> t > k | Inl e \<Rightarrow> False)
                     (by_signature (symbolic_atoms prg k) name arity)) future_sigs)) =
             {a \<in> set (symbolic_atoms prg k).
                (\<exists>(name, arity) \<in> set future_sigs. has_signature name arity (symbol a)) \<and>
                (case last_number a of Inr t \<Rightarrow> t > k | Inl e \<Rightarrow> False)}
         \<and> (distinct future_sigs \<and> distinct (symbolic_atoms prg k) \<longrightarrow>
              distinct (concat (map (\<lambda>(name, arity).
                   filter (\<lambda>a. case last_number a of Inr t \<Rightarrow> t > k | Inl e \<Rightarrow> False)
                     (by_signature (symbolic_atoms prg k) name arity)) future_sigs)))"
proof -
  let ?P = "\<lambda>a. case last_number a of Inr t \<Rightarrow> t > k | Inl e \<Rightarrow> False"
  let ?sel = "concat (map (\<lambda>(name, arity).
                filter ?P (by_signature (symbolic_atoms prg k) name arity)) future_sigs)"
  have "sigs_loop k (symbolic_atoms prg k) future_sigs [] = Inr as"
    using imain_loop_calls [OF assms [unfolded imain_def]] by simp
  from sigs_loop_eq [OF this] have a: "as = map (\<lambda>a. - literal a) ?sel"
    by simp
  have b: "set ?sel = {a \<in> set (symbolic_atoms prg k).
                (\<exists>(name, arity) \<in> set future_sigs. has_signature name arity (symbol a)) \<and> ?P a}"
    by (rule selected_set)
  have c: "distinct future_sigs \<and> distinct (symbolic_atoms prg k) \<longrightarrow> distinct ?sel"
    using selected_distinct [of future_sigs "symbolic_atoms prg k" ?P] by simp
  show ?thesis
    by (intro conjI a b c)
qed


theorem assumptions_at_step_witness:
  "(0, Solve [- 2]) \<in>
     set (calls (imain 1 future_control [(''__future_p'', 2)] three_parts 0 None ''SAT''))
   \<and> [- 2] = map (\<lambda>a. - literal a)
                (concat (map (\<lambda>(name, arity).
                   filter (\<lambda>a. case last_number a of Inr t \<Rightarrow> t > 0 | Inl e \<Rightarrow> False)
                     (by_signature (symbolic_atoms future_control 0) name arity))
                   [(''__future_p'', 2)]))"
proof -
  have h: "(0, Solve [- 2]) \<in>
     set (calls (imain 1 future_control [(''__future_p'', 2)] three_parts 0 None ''SAT''))"
    by (simp add: loop_defs bnd_def)
  have "[- 2] = map (\<lambda>a. - literal a)
                (concat (map (\<lambda>(name, arity).
                   filter (\<lambda>a. case last_number a of Inr t \<Rightarrow> t > 0 | Inl e \<Rightarrow> False)
                     (by_signature (symbolic_atoms future_control 0) name arity))
                   [(''__future_p'', 2)]))"
    using assumptions_at_step [OF h] by (rule conjunct1)
  with h show ?thesis by (rule conjI)
qed

text \<open>
  The claim as stated fails when a signature is repeated in \<open>future_sigs\<close>: with
  \<open>__future_p/2\<close> twice, the one atom \<open>__future_p(1,1)\<close> beyond step 0 gets two
  assumptions. \<open>transform\<close> returns that list for \<open>p' :- q. p'' :- q.\<close>, whose two keys
  differ in the shift only.
\<close>

theorem repeated_signature_counterexample:
  "calls (imain 1 future_control [(''__future_p'', 2), (''__future_p'', 2)] [] 0 None ''SAT'') =
     [(0, Ground []), (0, Assign_external (final_marker 0) True), (0, Solve [- 2, - 2])]
   \<and> map_sum id (\<lambda>r. fst (snd r)) (transform (parse_const two_shift_program) ['''']) =
       Inr [(''__future_p'', 2), (''__future_p'', 2)]"
  by (simp add: loop_defs eval_defs two_shift_program_def)

text \<open>
  C9. A pass through the body that does not raise adds exactly one to \<open>step\<close>, and the
  steps at which \<open>solve\<close> has been called are \<open>0, 1, ..., step - 1\<close> in this order. After
  every initial segment of the calls of a run at most one finality marker is assigned
  true and not released; and whenever a marker is assigned, it is the marker of the
  current step, it is assigned true, and no marker is asserted at that moment: the
  marker of the step before has been released. The markers are in fact set: a run that
  has not raised ends with exactly the marker of its last step asserted (none before the
  first step); whenever \<open>solve\<close> is called at step \<open>k\<close>, exactly the marker of \<open>k\<close> is
  asserted; every release happens at a step \<open>k > 0\<close>, releases the marker of \<open>k - 1\<close>, and
  that marker is the one asserted until then; and a step that reaches \<open>solve\<close> has assigned
  its own marker and, after the first step, released the marker of the step before.
\<close>

theorem finality_discipline:
  "(raised (body prg future_sigs program_parts st) = None \<longrightarrow>
      step (body prg future_sigs program_parts st) = step st + 1)
   \<and> map fst (filter (\<lambda>e. case snd e of Solve as \<Rightarrow> True | _ \<Rightarrow> False)
               (calls (imain n prg future_sigs program_parts imin imax istop)))
       = [0..step (imain n prg future_sigs program_parts imin imax istop) - 1]
   \<and> (\<forall>p. prefix p (calls (imain n prg future_sigs program_parts imin imax istop)) \<longrightarrow>
          asserted p = {} \<or> (\<exists>j. asserted p = {final_marker j}))
   \<and> (\<forall>p k m v. prefix (p @ [(k, Assign_external m v)])
                   (calls (imain n prg future_sigs program_parts imin imax istop)) \<longrightarrow>
          asserted p = {} \<and> m = final_marker k \<and> v)
   \<and> (raised (imain n prg future_sigs program_parts imin imax istop) = None \<longrightarrow>
        asserted (calls (imain n prg future_sigs program_parts imin imax istop)) =
          (if step (imain n prg future_sigs program_parts imin imax istop) = 0 then {}
           else {final_marker (step (imain n prg future_sigs program_parts imin imax istop) - 1)}))
   \<and> (\<forall>p k as. prefix (p @ [(k, Solve as)])
                   (calls (imain n prg future_sigs program_parts imin imax istop)) \<longrightarrow>
          asserted p = {final_marker k})
   \<and> (\<forall>p k m. prefix (p @ [(k, Release_external m)])
                   (calls (imain n prg future_sigs program_parts imin imax istop)) \<longrightarrow>
          0 < k \<and> m = final_marker (k - 1) \<and> asserted p = {m})
   \<and> (\<forall>k as. (k, Solve as) \<in>
                  set (calls (imain n prg future_sigs program_parts imin imax istop)) \<longrightarrow>
          (k, Assign_external (final_marker k) True) \<in>
             set (calls (imain n prg future_sigs program_parts imin imax istop)) \<and>
          (0 < k \<longrightarrow> (k, Release_external (final_marker (k - 1))) \<in>
             set (calls (imain n prg future_sigs program_parts imin imax istop))))"
proof -
  let ?st = "imain n prg future_sigs program_parts imin imax istop"
  have inv: "loop_inv ?st" by (rule imain_inv)
  have ok: "markers_ok {} (calls ?st)" using inv by (simp add: loop_inv_def)
  have a: "raised (body prg future_sigs program_parts st) = None \<longrightarrow>
      step (body prg future_sigs program_parts st) = step st + 1"
    by (simp add: body_def Let_def split: sum.splits)
  have b: "map fst (filter (\<lambda>e. case snd e of Solve as \<Rightarrow> True | _ \<Rightarrow> False) (calls ?st))
       = [0..step ?st - 1]"
    using inv by (simp add: loop_inv_def)
  have c: "\<forall>p. prefix p (calls ?st) \<longrightarrow> asserted p = {} \<or> (\<exists>j. asserted p = {final_marker j})"
    unfolding asserted_def using markers_ok_prefix_small [OF ok] by blast
  have d: "\<forall>p k m v. prefix (p @ [(k, Assign_external m v)]) (calls ?st) \<longrightarrow>
          asserted p = {} \<and> m = final_marker k \<and> v"
    unfolding asserted_def using markers_ok_assign [OF ok] by blast
  have e: "raised ?st = None \<longrightarrow>
        asserted (calls ?st) = (if step ?st = 0 then {} else {final_marker (step ?st - 1)})"
    using inv by (simp add: loop_inv_def)
  have f: "\<forall>p k as. prefix (p @ [(k, Solve as)]) (calls ?st) \<longrightarrow> asserted p = {final_marker k}"
    unfolding asserted_def using markers_ok_solve [OF ok] by blast
  have g: "\<forall>p k m. prefix (p @ [(k, Release_external m)]) (calls ?st) \<longrightarrow>
          0 < k \<and> m = final_marker (k - 1) \<and> asserted p = {m}"
    unfolding asserted_def using markers_ok_release [OF ok] by blast
  have h: "\<forall>k as. (k, Solve as) \<in> set (calls ?st) \<longrightarrow>
          (k, Assign_external (final_marker k) True) \<in> set (calls ?st) \<and>
          (0 < k \<longrightarrow> (k, Release_external (final_marker (k - 1))) \<in> set (calls ?st))"
    unfolding imain_def by (rule imain_loop_solve_markers) simp
  show ?thesis
    by (intro conjI a b c d e f g h)
qed

theorem finality_discipline_witness:
  "map fst (filter (\<lambda>e. case snd e of Solve as \<Rightarrow> True | _ \<Rightarrow> False)
               (calls (imain 2 quiet_control [] three_parts 0 None ''SAT'')))
       = [0..step (imain 2 quiet_control [] three_parts 0 None ''SAT'') - 1]
   \<and> step (imain 2 quiet_control [] three_parts 0 None ''SAT'') = 2
   \<and> prefix (take 6 (calls (imain 2 quiet_control [] three_parts 0 None ''SAT'')))
        (calls (imain 2 quiet_control [] three_parts 0 None ''SAT''))
   \<and> (asserted (take 6 (calls (imain 2 quiet_control [] three_parts 0 None ''SAT''))) = {}
        \<or> (\<exists>j. asserted (take 6 (calls (imain 2 quiet_control [] three_parts 0 None ''SAT'')))
                  = {final_marker j}))
   \<and> calls (imain 2 quiet_control [] three_parts 0 None ''SAT'') =
        [(0, Ground [(''initial'', [0, 0]), (''static'', [0, 0])]),
         (0, Assign_external (final_marker 0) True),
         (0, Solve []),
         (1, Release_external (final_marker 0)),
         (1, Cleanup),
         (1, Ground [(''static'', [1, 1]), (''static'', [0, 1]), (''dynamic'', [1, 1])]),
         (1, Assign_external (final_marker 1) True),
         (1, Solve [])]
   \<and> asserted (take 2 (calls (imain 2 quiet_control [] three_parts 0 None ''SAT'')))
        = {final_marker 0}
   \<and> asserted (take 3 (calls (imain 2 quiet_control [] three_parts 0 None ''SAT'')))
        = {final_marker 0}
   \<and> asserted (take 7 (calls (imain 2 quiet_control [] three_parts 0 None ''SAT'')))
        = {final_marker 1}
   \<and> asserted (calls (imain 2 quiet_control [] three_parts 0 None ''SAT''))
        = {final_marker 1}"
proof -
  let ?st = "imain 2 quiet_control [] three_parts 0 None ''SAT''"
  have p: "prefix (take 6 (calls ?st)) (calls ?st)"
    by (rule take_is_prefix)
  have s: "step ?st = 2"
    by (simp add: loop_defs numeral_2_eq_2)
  have r: "raised ?st = None"
    by (simp add: loop_defs numeral_2_eq_2)
  have cs: "calls ?st =
        [(0, Ground [(''initial'', [0, 0]), (''static'', [0, 0])]),
         (0, Assign_external (final_marker 0) True),
         (0, Solve []),
         (1, Release_external (final_marker 0)),
         (1, Cleanup),
         (1, Ground [(''static'', [1, 1]), (''static'', [0, 1]), (''dynamic'', [1, 1])]),
         (1, Assign_external (final_marker 1) True),
         (1, Solve [])]"
    by (simp add: loop_defs numeral_2_eq_2)
  note f = finality_discipline [of quiet_control "[]" three_parts ?st 2 0 None "''SAT''"]
  have b: "map fst (filter (\<lambda>e. case snd e of Solve as \<Rightarrow> True | _ \<Rightarrow> False) (calls ?st))
       = [0..step ?st - 1]"
    using f by (elim conjE)
  have c: "\<forall>p. prefix p (calls ?st) \<longrightarrow> asserted p = {} \<or> (\<exists>j. asserted p = {final_marker j})"
    using f by (elim conjE)
  have d: "asserted (take 6 (calls ?st)) = {} \<or> (\<exists>j. asserted (take 6 (calls ?st)) = {final_marker j})"
    using c p by blast
  have e: "raised ?st = None \<longrightarrow>
        asserted (calls ?st) = (if step ?st = 0 then {} else {final_marker (step ?st - 1)})"
    using f by (elim conjE)
  have g: "\<forall>p k as. prefix (p @ [(k, Solve as)]) (calls ?st) \<longrightarrow> asserted p = {final_marker k}"
    using f by (elim conjE)
  have r3: "\<forall>p k m. prefix (p @ [(k, Release_external m)]) (calls ?st) \<longrightarrow>
          0 < k \<and> m = final_marker (k - 1) \<and> asserted p = {m}"
    using f by (elim conjE)
  have p2: "prefix (take 2 (calls ?st) @ [(0, Solve [])]) (calls ?st)"
    unfolding cs by simp
  have p3: "prefix (take 3 (calls ?st) @ [(1, Release_external (final_marker 0))]) (calls ?st)"
    unfolding cs by simp
  have p7: "prefix (take 7 (calls ?st) @ [(1, Solve [])]) (calls ?st)"
    unfolding cs by simp
  have a2: "asserted (take 2 (calls ?st)) = {final_marker 0}"
    using g p2 by blast
  have a3: "asserted (take 3 (calls ?st)) = {final_marker 0}"
    using r3 p3 by blast
  have a7: "asserted (take 7 (calls ?st)) = {final_marker 1}"
    using g p7 by blast
  have a8: "asserted (calls ?st) = {final_marker 1}"
    using e r s by simp
  show ?thesis
    by (intro conjI b s p d cs a2 a3 a7 a8)
qed

section \<open>Properties of Application.main\<close>

text \<open>
  C2. Whatever the files are, \<open>main\<close> ends with an exception and without any call to the
  grounder or solver: reading a file may fail, and otherwise the call of \<open>transform\<close>
  with two arguments raises \<open>TypeError\<close>.
\<close>

theorem main_raises:
  "calls (main n prg parse read_file stdin imin imax istop files) = []
   \<and> raised (main n prg parse read_file stdin imin imax istop files) =
       Some (case read_all read_file files of Inl e \<Rightarrow> e | Inr texts \<Rightarrow> TypeError)"
  by (cases "read_all read_file files") (simp_all add: main_def call_transform_def bnd_def)

theorem main_raises_witness:
  "calls (main 5 quiet_control (parse_const plain_program) Inr '''' 0 None ''SAT'' [''a.lp'']) = []
   \<and> raised (main 5 quiet_control (parse_const plain_program) Inr '''' 0 None ''SAT'' [''a.lp''])
       = Some TypeError"
  using main_raises [of 5 quiet_control "parse_const plain_program" Inr "''''" 0 None "''SAT''"
                        "[''a.lp'']"]
  by (simp add: bnd_def)

end
